theory Spec2Isabelle
  imports Complex_Main "HOL-Library.Word" "HOL-Library.Monad_Syntax" "HOL-Library.List_Lexorder"
    "HOL-Library.Log_Nat"
begin

unbundle bit_operations_syntax

section \<open>Basic types\<close>

text \<open>
  A \<open>Slice\<close> or \<open>std::string\<close> is a list of bytes. Hash values are 32-bit words, whose
  addition wraps. Sizes of strings, log offsets and table or epoch counters count bytes and
  objects that exist in memory or on storage; they are natural numbers.
\<close>

type_synonym byte = "8 word"
type_synonym bytes = "byte list"
type_synonym u32 = "32 word"

text \<open>The kinds of \<open>Status\<close> (the message strings are dropped).\<close>

datatype Status = OK | NotFound | Corruption | IOError | InvalidArgument
  | AssertionFailed | BufferFull | AlreadyExists

definition ok :: "Status \<Rightarrow> bool" where
  "ok s = (s = OK)"

section \<open>Double precision\<close>

text \<open>
  The code computes two sizes in \<open>double\<close>. A finite double is a rational number
  \<open>m * 2 ^ e\<close> with \<open>\<bar>m\<bar> < 2 ^ 53\<close> and \<open>- 1074 \<le> e\<close>; every operation returns the
  double nearest to the exact result, the one with the even \<open>m\<close> when two are equally
  near. \<open>to_double\<close> is this rounding (values beyond the largest double, about
  \<open>1.8 * 10 ^ 308\<close>, do not occur: the operands are sizes of 64 bits).
  \<open>ilog2 x\<close> is the exponent \<open>e\<close> with \<open>2 ^ e \<le> x < 2 ^ (e + 1)\<close> of a positive \<open>x\<close>.
\<close>

definition pow2 :: "int \<Rightarrow> rat" where
  "pow2 e = (if 0 \<le> e then 2 ^ nat e else 1 / 2 ^ nat (- e))"

definition ilog2 :: "rat \<Rightarrow> int" where
  "ilog2 x = (let (p, q) = quotient_of x; d = bitlen p - bitlen q in if pow2 d \<le> x then d else d - 1)"

definition round_even :: "rat \<Rightarrow> int" where
  "round_even q =
     (let m = \<lfloor>q\<rfloor>; r = q - of_int m in
      if r < 1 / 2 then m else if 1 / 2 < r then m + 1 else if even m then m else m + 1)"

definition to_double :: "rat \<Rightarrow> rat" where
  "to_double x =
     (if x = 0 then 0
      else let e = max (ilog2 \<bar>x\<bar> - 52) (- 1074) in of_int (round_even (x / pow2 e)) * pow2 e)"

text \<open>
  \<open>static_cast<uint64_t>(d)\<close> drops the fraction of \<open>d\<close>; the conversion is undefined when
  the result is not a \<open>uint64_t\<close> (\<open>None\<close>).
\<close>

definition double_to_uint64 :: "rat \<Rightarrow> nat option" where
  "double_to_uint64 d = (if - 1 < d \<and> d < 2 ^ 64 then Some (nat \<lfloor>d\<rfloor>) else None)"

section \<open>Bloom filter block (deltafs_plfsio_internal.cc, lines 27-116)\<close>

text \<open>
  \<open>Hash\<close> (pdlfs-common/hash.h) is not part of the sources: it is a parameter
  \<open>Hash :: bytes \<Rightarrow> u32 \<Rightarrow> u32\<close> of everything that hashes, taking the key and the seed.
\<close>

definition BloomHash :: "(bytes \<Rightarrow> u32 \<Rightarrow> u32) \<Rightarrow> bytes \<Rightarrow> u32" where
  "BloomHash Hash key = Hash key 0xbc9f1d34"

text \<open>Rotate right 17 bits: \<open>(h >> 17) | (h << 15)\<close>.\<close>

definition rotr17 :: "u32 \<Rightarrow> u32" where
  "rotr17 h = (drop_bit 17 h) OR (push_bit 15 h)"

text \<open>
  The probe loop of \<open>BloomKeyMayMatch\<close>, \<open>for (j = 0; j < k; j++)\<close>, by recursion on the
  number of iterations that remain. \<open>h % bits\<close> is computed on \<open>size_t\<close>, so it is the
  remainder of the unsigned value of \<open>h\<close>.
\<close>

fun MayMatch_loop :: "bytes \<Rightarrow> nat \<Rightarrow> u32 \<Rightarrow> nat \<Rightarrow> u32 \<Rightarrow> bool" where
  "MayMatch_loop array bits delta 0 h = True"
| "MayMatch_loop array bits delta (Suc n) h =
     (let bitpos = unat h mod bits in
      if (array ! (bitpos div 8)) AND (push_bit (bitpos mod 8) 1) = 0 then False
      else MayMatch_loop array bits delta n (h + delta))"

text \<open>
  \<open>const size_t k = array[len - 1]\<close> converts a \<open>char\<close>: a byte with the top bit set is
  negative where \<open>char\<close> is signed and becomes a \<open>size_t\<close> above 30, as it is above 30
  where \<open>char\<close> is unsigned. Both give the reserved branch.
\<close>

definition BloomKeyMayMatch :: "(bytes \<Rightarrow> u32 \<Rightarrow> u32) \<Rightarrow> bytes \<Rightarrow> bytes \<Rightarrow> bool" where
  "BloomKeyMayMatch Hash key input =
     (let len = length input in
      if len < 2 then True
      else
        let bits = (len - 1) * 8;
            k = sint (input ! (len - 1)) in
        if k < 0 \<or> k > 30 then True
        else
          let h = BloomHash Hash key;
              delta = rotr17 h
          in MayMatch_loop input bits delta (nat k) h)"

record BloomBlock =
  bb_finished :: bool
  bb_space :: bytes
  bb_bits :: nat
  bb_k :: nat

text \<open>
  \<open>k_ = static_cast<size_t>(bits_per_key * 0.69)\<close> multiplies in double precision and
  truncates. For \<open>bits_per_key < 100\<close> the exact product \<open>69 * bits_per_key / 100\<close> is at
  least \<open>1/100\<close> away from every integer unless it is 0, far more than the rounding error
  of the double product, so the truncation is \<open>69 * bits_per_key div 100\<close>; from 100 on both
  are at least 68 and clamped to 30.
\<close>

definition probes_of :: "nat \<Rightarrow> nat" where
  "probes_of bits_per_key =
     (let k = bits_per_key * 69 div 100;
          k = (if k < 1 then 1 else k);
          k = (if k > 30 then 30 else k)
      in k)"

definition BloomBlock :: "nat \<Rightarrow> nat \<Rightarrow> BloomBlock" where
  "BloomBlock bits_per_key sz =
     (let k = probes_of bits_per_key in
      \<lparr> bb_finished = False,
        bb_space = replicate sz 0 @ [of_nat k],
        bb_bits = 8 * sz,
        bb_k = k \<rparr>)"

text \<open>
  The loop of \<open>AddKey\<close>. \<open>h % bits_\<close> with \<open>bits_ = 0\<close> is a division by zero: the model
  stops with \<open>None\<close>. A write at \<open>bitpos / 8\<close> beyond the string is out of bounds and
  stops the same way.
\<close>

fun AddKey_loop :: "nat \<Rightarrow> u32 \<Rightarrow> nat \<Rightarrow> u32 \<Rightarrow> bytes \<Rightarrow> bytes option" where
  "AddKey_loop bits delta 0 h space = Some space"
| "AddKey_loop bits delta (Suc n) h space =
     (if bits = 0 then None
      else
        let bitpos = unat h mod bits in
        if bitpos div 8 < length space
        then AddKey_loop bits delta n (h + delta)
               (space[bitpos div 8 := (space ! (bitpos div 8)) OR (push_bit (bitpos mod 8) 1)])
        else None)"

text \<open>\<open>assert(!finished_)\<close> is a branch of the model: a violated assertion is \<open>None\<close>.\<close>

definition AddKey :: "(bytes \<Rightarrow> u32 \<Rightarrow> u32) \<Rightarrow> bytes \<Rightarrow> BloomBlock \<Rightarrow> BloomBlock option" where
  "AddKey Hash key b =
     (if bb_finished b then None
      else
        let h = BloomHash Hash key;
            delta = rotr17 h
        in map_option (\<lambda>sp. b\<lparr>bb_space := sp\<rparr>)
             (AddKey_loop (bb_bits b) delta (bb_k b) h (bb_space b)))"

fun AddKeys :: "(bytes \<Rightarrow> u32 \<Rightarrow> u32) \<Rightarrow> bytes list \<Rightarrow> BloomBlock \<Rightarrow> BloomBlock option" where
  "AddKeys Hash [] b = Some b"
| "AddKeys Hash (key # keys) b =
     (case AddKey Hash key b of None \<Rightarrow> None | Some b' \<Rightarrow> AddKeys Hash keys b')"

text \<open>\<open>BloomBlock::Finish\<close> returns the filter bytes, the probe count last.\<close>

definition Bloom_Finish :: "BloomBlock \<Rightarrow> (BloomBlock \<times> bytes) option" where
  "Bloom_Finish b =
     (if bb_finished b then None
      else Some (b\<lparr>bb_finished := True\<rparr>, bb_space b))"


text \<open>
  \<open>BloomBlock::Finalize\<close> appends the block trailer: the type byte \<open>kNoCompression = 0\<close>
  and the masked CRC of contents and type. \<open>crc32c::Value\<close> is a parameter (the CRC of a
  byte string; \<open>Extend\<close> over one more byte is the CRC of the longer string).

  Modelled from the spec: \<open>crc32c::Mask\<close> and \<open>EncodeFixed32\<close> (pdlfs-common, not in the
  sources): "masked CRC = ((crc >> 15) | (crc << 17)) + 0xa282ead8", integers little-endian.
\<close>

definition crc32c_Mask :: "u32 \<Rightarrow> u32" where
  "crc32c_Mask crc = ((drop_bit 15 crc) OR (push_bit 17 crc)) + 0xa282ead8"

definition EncodeFixed32 :: "u32 \<Rightarrow> bytes" where
  "EncodeFixed32 v = [ucast v, ucast (drop_bit 8 v), ucast (drop_bit 16 v), ucast (drop_bit 24 v)]"

definition kBlockTrailerSize :: nat where
  "kBlockTrailerSize = 5"

definition Bloom_Finalize :: "(bytes \<Rightarrow> u32) \<Rightarrow> BloomBlock \<Rightarrow> (BloomBlock \<times> bytes) option" where
  "Bloom_Finalize crc32c_Value b =
     (if \<not> bb_finished b then None
      else
        let contents = bb_space b;
            crc = crc32c_Value (contents @ [0]);
            trailer = 0 # EncodeFixed32 (crc32c_Mask crc);
            space = contents @ trailer
        in Some (b\<lparr>bb_space := space\<rparr>, space))"

section \<open>Handles, blocks and what is written to a log\<close>

record BlockHandle =
  bh_offset :: nat
  bh_size :: nat

record TableHandle =
  th_smallest_key :: bytes
  th_largest_key :: bytes
  th_filter_offset :: nat
  th_filter_size :: nat
  th_offset :: nat
  th_size :: nat

record Footer =
  ft_epoch_index_handle :: BlockHandle
  ft_num_epoches :: nat

text \<open>
  The byte encodings of entries, handles and blocks (coding.h, the block builder and the
  block reader) are not part of the sources. A string that holds an encoded object is
  represented by the object, together with the length of its encoding: the value of a
  block entry is raw bytes, a string to which block handles have been encoded one behind
  the other (\<open>EncodeTo\<close> appends), or an encoded \<open>TableHandle\<close>.
\<close>

datatype "value" = VBytes bytes | VBlockHandles "BlockHandle list" | VTableHandle TableHandle

type_synonym entry = "bytes \<times> value"

text \<open>
  Modelled from the spec: \<open>VarintLength\<close> (coding.h, not in the sources): "varints are
  LEB128-style 7-bit continuation".
\<close>

fun VarintLength :: "nat \<Rightarrow> nat" where
  "VarintLength v = (if v < 128 then 1 else 1 + VarintLength (v div 128))"

declare VarintLength.simps [simp del]

text \<open>
  Modelled from the spec: the encoded lengths, "BlockHandle = varint(offset) || varint(size)",
  "TableHandle = len-prefixed smallest_key || len-prefixed largest_key ||
  varint(filter_offset) || varint(filter_size) || BlockHandle(index)".
\<close>

definition BlockHandle_length :: "BlockHandle \<Rightarrow> nat" where
  "BlockHandle_length h = VarintLength (bh_offset h) + VarintLength (bh_size h)"

definition LengthPrefixed_length :: "bytes \<Rightarrow> nat" where
  "LengthPrefixed_length k = VarintLength (length k) + length k"

definition TableHandle_length :: "TableHandle \<Rightarrow> nat" where
  "TableHandle_length h =
     LengthPrefixed_length (th_smallest_key h) + LengthPrefixed_length (th_largest_key h) +
     VarintLength (th_filter_offset h) + VarintLength (th_filter_size h) +
     VarintLength (th_offset h) + VarintLength (th_size h)"

fun value_length :: "value \<Rightarrow> nat" where
  "value_length (VBytes b) = length b"
| "value_length (VBlockHandles hs) = sum_list (map BlockHandle_length hs)"
| "value_length (VTableHandle h) = TableHandle_length h"

text \<open>
  A finished block in a buffer or on a log: its entries in insertion order, the size of its
  contents (what \<open>Finish\<close> returns: entries, restart array and restart count) and its final
  size (with trailer and padding).
\<close>

record blockimg =
  bi_entries :: "entry list"
  bi_size :: nat
  bi_final_size :: nat

text \<open>
  One piece of what \<open>Lwrite\<close> appends: a finished block, the bytes of a block still under
  construction (entries without restart array and trailer), a finalized filter, a run of
  zero bytes, or the encoded footer with its length. A \<open>Slice\<close> handed to a log is a
  list of pieces.
\<close>

datatype piece =
    PBlock blockimg
  | PPartial "entry list" nat
  | PFilter bytes
  | PZeros nat
  | PFooter Footer nat

fun piece_size :: "piece \<Rightarrow> nat" where
  "piece_size (PBlock b) = bi_final_size b"
| "piece_size (PPartial es n) = n"
| "piece_size (PFilter f) = length f"
| "piece_size (PZeros n) = n"
| "piece_size (PFooter f n) = n"

definition slice_size :: "piece list \<Rightarrow> nat" where
  "slice_size d = sum_list (map piece_size d)"

section \<open>Log sink (deltafs_plfsio_xio.h)\<close>

text \<open>
  Modelled from the spec: \<open>WritableFile\<close> (pdlfs-common/env.h, not in the sources), an
  append-only file whose \<open>Append\<close> and \<open>Flush\<close> may fail. The results of the environment
  are a function of the number of the call; an \<open>Append\<close> that succeeds adds the data.
\<close>

record WritableFile =
  wf_written :: "piece list"
  wf_calls :: nat
  wf_append_result :: "nat \<Rightarrow> Status"
  wf_flush_result :: "nat \<Rightarrow> Status"
  wf_close_result :: Status

definition wf_Append :: "piece list \<Rightarrow> WritableFile \<Rightarrow> Status \<times> WritableFile" where
  "wf_Append data f =
     (let r = wf_append_result f (wf_calls f) in
      (r, f\<lparr>wf_calls := Suc (wf_calls f),
             wf_written := (if ok r then wf_written f @ data else wf_written f)\<rparr>))"

definition wf_Flush :: "WritableFile \<Rightarrow> Status \<times> WritableFile" where
  "wf_Flush f = (wf_flush_result f (wf_calls f), f)"

text \<open>\<open>file_\<close> is \<open>NULL\<close> once the log is closed: \<open>sink_file = None\<close>.\<close>

record LogSink =
  sink_offset :: nat
  sink_file :: "WritableFile option"

definition Ltell :: "LogSink \<Rightarrow> nat" where
  "Ltell s = sink_offset s"

definition Lwrite :: "piece list \<Rightarrow> LogSink \<Rightarrow> Status \<times> LogSink" where
  "Lwrite data s =
     (case sink_file s of
        None \<Rightarrow> (AssertionFailed, s)
      | Some file \<Rightarrow>
          let (result, file1) = wf_Append data file in
          if ok result then
            let (result2, file2) = wf_Flush file1 in
            if ok result2
            then (result2, s\<lparr>sink_offset := sink_offset s + slice_size data, sink_file := Some file2\<rparr>)
            else (result2, s\<lparr>sink_file := Some file2\<rparr>)
          else (result, s\<lparr>sink_file := Some file1\<rparr>))"

text \<open>
  Modelled from the spec: \<open>LogSink::Lclose\<close> (deltafs_plfsio_xio.cc, not in the sources;
  the header declares it): "Close the log so no further writes will be accepted", with
  \<open>file_\<close> "NULL if Finish() has been called".
\<close>

definition Lclose :: "bool \<Rightarrow> LogSink \<Rightarrow> Status \<times> LogSink" where
  "Lclose sync s =
     (case sink_file s of
        None \<Rightarrow> (OK, s)
      | Some file \<Rightarrow> (wf_close_result file, s\<lparr>sink_file := None\<rparr>))"


section \<open>Keys\<close>

text \<open>
  \<open>Slice::compare\<close> orders keys bytewise (unsigned bytes, a proper prefix first): the
  lexicographic order of byte lists.

  Modelled from the spec: \<open>FindShortestSeparator\<close> and \<open>FindShortSuccessor\<close> of the
  bytewise comparator (pdlfs-common, not in the sources): a short string \<open>s\<close> with
  "last_key \<le> s < next_key (separator) or \<ge> last_key (successor)". The separator
  increments the first byte where the keys differ, when the result stays below the limit;
  the successor increments the first byte that is not \<open>0xff\<close>.
\<close>

fun FindShortestSeparator :: "bytes \<Rightarrow> bytes \<Rightarrow> bytes" where
  "FindShortestSeparator (a # as) (b # bs) =
     (if a = b then a # FindShortestSeparator as bs
      else if a < 0xff \<and> a + 1 < b then [a + 1]
      else a # as)"
| "FindShortestSeparator start limit = start"

fun FindShortSuccessor :: "bytes \<Rightarrow> bytes" where
  "FindShortSuccessor [] = []"
| "FindShortSuccessor (a # as) =
     (if a \<noteq> 0xff then [a + 1]
      else if list_all (\<lambda>x. x = 0xff) as then a # as
      else a # FindShortSuccessor as)"

text \<open>
  Modelled from the spec: \<open>EpochKey\<close> (deltafs_plfsio_format.h, not in the sources), "a
  fixed-width printable encoding that orders lexicographically equal to (e, t)
  numerically": two decimal numbers of at least four digits, separated by a dash.
\<close>

fun digits :: "nat \<Rightarrow> bytes" where
  "digits n = (if n < 10 then [of_nat (48 + n)] else digits (n div 10) @ [of_nat (48 + n mod 10)])"

declare digits.simps [simp del]

definition pad4 :: "nat \<Rightarrow> bytes" where
  "pad4 n = replicate (4 - length (digits n)) 48 @ digits n"

definition EpochKey :: "nat \<Rightarrow> nat \<Rightarrow> bytes" where
  "EpochKey epoch table = pad4 epoch @ [45] @ pad4 table"

text \<open>
  \<open>EpochKey\<close> maps different tables of an epoch to different keys (the loop of the reader
  over the tables of an epoch ends because of it).
\<close>


definition undigits :: "bytes \<Rightarrow> nat" where
  "undigits ds = foldl (\<lambda>a c. 10 * a + (unat c - 48)) 0 ds"

lemma undigits_append: "undigits (xs @ [c]) = 10 * undigits xs + (unat c - 48)"
  by (simp add: undigits_def)

lemma unat_digit: "n < 10 \<Longrightarrow> unat (of_nat (48 + n) :: byte) = 48 + n"
  by (rule of_nat_inverse[OF refl]) simp

lemma undigits_digits: "undigits (digits n) = n"
proof (induction n rule: digits.induct)
  case (1 n)
  show ?case
  proof (cases "n < 10")
    case True
    then show ?thesis
      using unat_digit[of n] by (subst digits.simps) (simp add: undigits_def)
  next
    case False
    have "unat (of_nat (48 + n mod 10) :: byte) = 48 + n mod 10"
      by (rule unat_digit) simp
    with False 1 show ?thesis
      by (subst digits.simps) (simp add: undigits_append)
  qed
qed

lemma undigits_zeros: "undigits (replicate k 48 @ ds) = undigits ds"
proof -
  have "foldl (\<lambda>a c. 10 * a + (unat (c::byte) - 48)) 0 (replicate k 48) = 0"
    by (induction k) simp_all
  then show ?thesis by (simp add: undigits_def)
qed

lemma undigits_pad4: "undigits (pad4 n) = n"
  by (simp add: pad4_def undigits_zeros undigits_digits)

lemma EpochKey_inj: "EpochKey e t = EpochKey e t' \<Longrightarrow> t = t'"
  by (metis EpochKey_def same_append_eq undigits_pad4)

lemma finite_EpochKey_tables: "finite K \<Longrightarrow> finite {t. EpochKey e t \<in> K}"
proof -
  assume "finite K"
  have "inj (EpochKey e)" by (rule injI) (rule EpochKey_inj)
  then have "finite (EpochKey e -` K)" using \<open>finite K\<close> by (rule finite_vimageI[rotated])
  then show ?thesis by (simp add: vimage_def)
qed

section \<open>Block builder\<close>

text \<open>
  Modelled from the spec: \<open>BlockBuilder\<close> (pdlfs-common, not in the sources). "A block is
  built by appending (key, value) pairs, each encoded as (shared_len varint, non_shared_len
  varint, value_len varint, non_shared_key_bytes, value_bytes). Every restart_interval-th
  entry resets shared_len = 0 and records an entry-start offset. At finalization the block
  emits: payload || restart-offset array (u32 LE each) || restart count (u32 LE).
  Finalize(pad_to?) appends the 5-byte trailer" and pads to the requested size.

  The builder appends to one buffer (\<open>buffer_store()\<close>): the finished blocks that
  \<open>SwitchBuffer(NULL)\<close> has left behind (\<open>blk_store\<close>), then the block under construction,
  of which the model keeps the entries and the number of bytes. \<open>Reset\<close> drops the block
  under construction.
\<close>

record BlockBuilder =
  blk_restart_interval :: nat
  blk_store :: "blockimg list"
  blk_entries :: "entry list"
  blk_nbytes :: nat
  blk_size :: nat
  blk_restarts :: nat
  blk_counter :: nat
  blk_last_key :: bytes
  blk_finished :: bool

definition new_BlockBuilder :: "nat \<Rightarrow> BlockBuilder" where
  "new_BlockBuilder restart_interval =
     \<lparr> blk_restart_interval = restart_interval, blk_store = [], blk_entries = [],
       blk_nbytes = 0, blk_size = 0, blk_restarts = 1, blk_counter = 0, blk_last_key = [],
       blk_finished = False \<rparr>"

fun shared_len :: "bytes \<Rightarrow> bytes \<Rightarrow> nat" where
  "shared_len (a # as) (b # bs) = (if a = b then Suc (shared_len as bs) else 0)"
| "shared_len x y = 0"

definition blk_empty :: "BlockBuilder \<Rightarrow> bool" where
  "blk_empty b = (blk_nbytes b = 0)"

definition blk_Add :: "bytes \<Rightarrow> value \<Rightarrow> BlockBuilder \<Rightarrow> BlockBuilder option" where
  "blk_Add key v b =
     (if blk_finished b then None
      else
        let restart = \<not> (blk_counter b < blk_restart_interval b);
            shared = (if restart then 0 else shared_len (blk_last_key b) key);
            non_shared = length key - shared;
            n = VarintLength shared + VarintLength non_shared + VarintLength (value_length v)
                + non_shared + value_length v
        in Some (b\<lparr> blk_entries := blk_entries b @ [(key, v)],
                    blk_nbytes := blk_nbytes b + n,
                    blk_restarts := (if restart then Suc (blk_restarts b) else blk_restarts b),
                    blk_counter := Suc (if restart then 0 else blk_counter b),
                    blk_last_key := key \<rparr>))"

definition blk_CurrentSizeEstimate :: "BlockBuilder \<Rightarrow> nat" where
  "blk_CurrentSizeEstimate b = blk_nbytes b + blk_restarts b * 4 + 4"

text \<open>\<open>Finish\<close> appends the restart array and returns the contents of the block.\<close>

definition blk_Finish :: "BlockBuilder \<Rightarrow> (BlockBuilder \<times> blockimg) option" where
  "blk_Finish b =
     (if blk_finished b then None
      else
        let n = blk_nbytes b + blk_restarts b * 4 + 4;
            b' = b\<lparr>blk_nbytes := n, blk_size := n, blk_finished := True\<rparr>
        in Some (b', \<lparr>bi_entries = blk_entries b, bi_size = n, bi_final_size = n\<rparr>))"

text \<open>\<open>Finalize\<close> appends the trailer and the padding and returns the final contents.\<close>

definition blk_Finalize :: "nat option \<Rightarrow> BlockBuilder \<Rightarrow> (BlockBuilder \<times> blockimg) option" where
  "blk_Finalize pad_to b =
     (if \<not> blk_finished b then None
      else
        let n = blk_nbytes b + kBlockTrailerSize;
            n = (case pad_to of None \<Rightarrow> n | Some target \<Rightarrow> if n < target then target else n);
            b' = b\<lparr>blk_nbytes := n\<rparr>
        in Some (b', \<lparr>bi_entries = blk_entries b, bi_size = blk_size b, bi_final_size = n\<rparr>))"

text \<open>The contents and the size of \<open>*buffer_store()\<close>.\<close>

definition blk_buffer_store :: "BlockBuilder \<Rightarrow> piece list" where
  "blk_buffer_store b =
     map PBlock (blk_store b) @
     (if blk_nbytes b = 0 then []
      else if blk_finished b
      then [PBlock \<lparr>bi_entries = blk_entries b, bi_size = blk_size b, bi_final_size = blk_nbytes b\<rparr>]
      else [PPartial (blk_entries b) (blk_nbytes b)])"

definition blk_buffer_size :: "BlockBuilder \<Rightarrow> nat" where
  "blk_buffer_size b = sum_list (map bi_final_size (blk_store b)) + blk_nbytes b"

text \<open>\<open>buffer_store()->clear()\<close>, \<open>SwitchBuffer(NULL)\<close> and \<open>Reset()\<close>.\<close>

definition blk_buffer_clear :: "BlockBuilder \<Rightarrow> BlockBuilder" where
  "blk_buffer_clear b = b\<lparr>blk_store := [], blk_entries := [], blk_nbytes := 0\<rparr>"

definition blk_SwitchBuffer_NULL :: "BlockBuilder \<Rightarrow> BlockBuilder" where
  "blk_SwitchBuffer_NULL b =
     (if blk_nbytes b = 0 then b
      else b\<lparr> blk_store := blk_store b @
                  [\<lparr>bi_entries = blk_entries b, bi_size = blk_size b, bi_final_size = blk_nbytes b\<rparr>],
               blk_entries := [], blk_nbytes := 0 \<rparr>)"

definition blk_Reset :: "BlockBuilder \<Rightarrow> BlockBuilder" where
  "blk_Reset b =
     b\<lparr> blk_entries := [], blk_nbytes := 0, blk_size := 0, blk_restarts := 1,
        blk_counter := 0, blk_last_key := [], blk_finished := False \<rparr>"


section \<open>Table logger (deltafs_plfsio_internal.cc, lines 240-515)\<close>

text \<open>
  The options the code reads. \<open>block_util\<close> is a \<open>double\<close>: the record holds its value,
  and a rational that is no double is read as the double nearest to it.
\<close>

record DirOptions =
  block_size :: nat
  block_util :: rat
  block_padding :: bool
  block_buffer :: nat
  memtable_buffer :: nat
  lg_parts :: nat
  unique_keys :: bool
  bf_bits_per_key :: nat
  verify_checksums :: bool
  non_blocking :: bool
  tail_padding :: bool
  index_buffer :: nat
  key_size :: nat
  value_size :: nat

text \<open>
  What the code takes from headers and libraries that are not part of the sources: the
  hash function, the CRC, the two build-time caps, the length of an encoded footer, and
  the order in which the \<open>std::sort\<close> of the C++ library leaves the entries of a write
  buffer (see \<open>std_sort\<close> below).
\<close>

record Ext =
  Hash :: "bytes \<Rightarrow> u32 \<Rightarrow> u32"
  crc32c_Value :: "bytes \<Rightarrow> u32"
  kMaxEpoches :: nat
  kMaxTablesPerEpoch :: nat
  Footer_kEncodeLength :: nat
  sort_order :: "(bytes \<times> bytes) list \<Rightarrow> (bytes \<times> bytes) list"

text \<open>
  The state of a \<open>TableLogger\<close>. The two sinks are shared with the \<open>PlfsIoLogger\<close> that
  owns the table logger, which only reads them; the model keeps them here.
  \<open>uncommitted_indexes_\<close> holds encoded (separator, handle) pairs; \<open>Commit\<close> decodes what
  \<open>Add\<close> and \<open>EndTable\<close> have encoded, so the model keeps the pairs.
\<close>

record TableLogger =
  tl_options :: DirOptions
  tl_num_uncommitted_index :: nat
  tl_num_uncommitted_data :: nat
  tl_data_block :: BlockBuilder
  tl_index_block :: BlockBuilder
  tl_meta_block :: BlockBuilder
  tl_uncommitted_indexes :: "(bytes \<times> BlockHandle) list"
  tl_pending_index_entry :: bool
  tl_pending_index_handle :: BlockHandle
  tl_pending_meta_entry :: bool
  tl_pending_meta_handle :: TableHandle
  tl_smallest_key :: bytes
  tl_largest_key :: bytes
  tl_last_key :: bytes
  tl_num_tables :: nat
  tl_num_epochs :: nat
  tl_status :: Status
  tl_data_sink :: LogSink
  tl_meta_sink :: LogSink
  tl_finished :: bool

definition new_TableLogger :: "DirOptions \<Rightarrow> LogSink \<Rightarrow> LogSink \<Rightarrow> TableLogger" where
  "new_TableLogger options data index =
     \<lparr> tl_options = options,
       tl_num_uncommitted_index = 0,
       tl_num_uncommitted_data = 0,
       tl_data_block = blk_Reset (blk_SwitchBuffer_NULL (blk_buffer_clear (new_BlockBuilder 16))),
       tl_index_block = new_BlockBuilder 1,
       tl_meta_block = new_BlockBuilder 1,
       tl_uncommitted_indexes = [],
       tl_pending_index_entry = False,
       tl_pending_index_handle = \<lparr>bh_offset = 0, bh_size = 0\<rparr>,
       tl_pending_meta_entry = False,
       tl_pending_meta_handle = \<lparr>th_smallest_key = [], th_largest_key = [], th_filter_offset = 0,
          th_filter_size = 0, th_offset = 0, th_size = 0\<rparr>,
       tl_smallest_key = [],
       tl_largest_key = [],
       tl_last_key = [],
       tl_num_tables = 0,
       tl_num_epochs = 0,
       tl_status = OK,
       tl_data_sink = data,
       tl_meta_sink = index,
       tl_finished = False \<rparr>"

definition tl_ok :: "TableLogger \<Rightarrow> bool" where
  "tl_ok s = ok (tl_status s)"

text \<open>
  Every operation returns an option: \<open>None\<close> is a violated \<open>assert\<close> (or a division by
  zero), after which there is no state.
\<close>

definition TableLogger_Flush :: "TableLogger \<Rightarrow> TableLogger option" where
  "TableLogger_Flush s =
     (if tl_finished s then None
      else if blk_empty (tl_data_block s) then Some s
      else if \<not> tl_ok s then Some s
      else do {
        (b1, contents) \<leftarrow> blk_Finish (tl_data_block s);
        let size = bi_size contents;
        (b2, final_contents) \<leftarrow>
          (if block_padding (tl_options s)
           then blk_Finalize (Some (block_size (tl_options s))) b1
           else blk_Finalize None b1);
        let final_size = bi_final_size final_contents;
        let offset = blk_buffer_size b2 - final_size;
        if tl_pending_index_entry s then None
        else Some (s\<lparr> tl_data_block := blk_Reset (blk_SwitchBuffer_NULL b2),
                       tl_pending_index_handle := \<lparr>bh_offset = offset, bh_size = size\<rparr>,
                       tl_pending_index_entry := True,
                       tl_num_uncommitted_data := Suc (tl_num_uncommitted_data s) \<rparr>)
      })"

text \<open>
  The loop of \<open>Commit\<close> over the uncommitted index entries (lines 384-394).
  \<open>handle_encoding\<close> is declared before the loop and \<open>EncodeTo\<close> appends to it: the value
  of every index entry holds the handles of all entries of this \<open>Commit\<close> up to its own.
\<close>

fun Commit_indexes :: "nat \<Rightarrow> (bytes \<times> BlockHandle) list \<Rightarrow> BlockHandle list \<Rightarrow> BlockBuilder
    \<Rightarrow> BlockBuilder option" where
  "Commit_indexes offset [] handle_encoding ib = Some ib"
| "Commit_indexes offset ((key, handle) # input) handle_encoding ib =
     (let handle_encoding = handle_encoding @ [handle\<lparr>bh_offset := offset + bh_offset handle\<rparr>] in
      case blk_Add key (VBlockHandles handle_encoding) ib of
        None \<Rightarrow> None
      | Some ib' \<Rightarrow> Commit_indexes offset input handle_encoding ib')"

definition TableLogger_Commit :: "TableLogger \<Rightarrow> TableLogger option" where
  "TableLogger_Commit s =
     (if tl_finished s then None
      else if blk_buffer_size (tl_data_block s) = 0 then Some s
      else if \<not> tl_ok s then Some s
      else if tl_num_uncommitted_data s \<noteq> tl_num_uncommitted_index s then None
      else
        let offset = Ltell (tl_data_sink s);
            (st, sink) = Lwrite (blk_buffer_store (tl_data_block s)) (tl_data_sink s);
            s1 = s\<lparr>tl_status := st, tl_data_sink := sink\<rparr>
        in if \<not> ok st then Some s1
           else do {
             ib \<leftarrow> Commit_indexes offset (tl_uncommitted_indexes s1) [] (tl_index_block s1);
             let num_index_committed = length (tl_uncommitted_indexes s1);
             if num_index_committed \<noteq> tl_num_uncommitted_index s1 then None
             else Some (s1\<lparr> tl_index_block := ib,
                             tl_num_uncommitted_data := 0,
                             tl_num_uncommitted_index := 0,
                             tl_uncommitted_indexes := [],
                             tl_data_block :=
                               blk_Reset (blk_SwitchBuffer_NULL (blk_buffer_clear (tl_data_block s1))) \<rparr>)
           })"

text \<open>
  \<open>static_cast<uint64_t>(options_.block_size * options_.block_util)\<close> (line 467): the size
  is converted to \<open>double\<close>, the product is a \<open>double\<close>, and the conversion drops its
  fraction.
\<close>

definition flush_threshold :: "DirOptions \<Rightarrow> nat option" where
  "flush_threshold options =
     double_to_uint64 (to_double (to_double (of_nat (block_size options)) * to_double (block_util options)))"

definition TableLogger_Add :: "bytes \<Rightarrow> bytes \<Rightarrow> TableLogger \<Rightarrow> TableLogger option" where
  "TableLogger_Add key v s =
     (if tl_finished s then None
      else if key = [] then None
      else if \<not> tl_ok s then Some s
      else if tl_last_key s \<noteq> [] \<and> key < tl_last_key s then None
      else if tl_last_key s \<noteq> [] \<and> unique_keys (tl_options s) \<and> key = tl_last_key s then None
      else do {
        let s1 = s\<lparr> tl_smallest_key := (if tl_smallest_key s = [] then key else tl_smallest_key s),
                     tl_largest_key := key \<rparr>;
        let s2 = (if tl_pending_index_entry s1
                  then let sep = FindShortestSeparator (tl_last_key s1) key in
                       s1\<lparr> tl_last_key := sep,
                           tl_uncommitted_indexes :=
                             tl_uncommitted_indexes s1 @ [(sep, tl_pending_index_handle s1)],
                           tl_pending_index_entry := False,
                           tl_num_uncommitted_index := Suc (tl_num_uncommitted_index s1) \<rparr>
                  else s1);
        s3 \<leftarrow> (if blk_buffer_size (tl_data_block s2) \<ge> block_buffer (tl_options s2)
                then TableLogger_Commit s2 else Some s2);
        b \<leftarrow> blk_Add key (VBytes v) (tl_data_block s3);
        let s4 = s3\<lparr>tl_last_key := key, tl_data_block := b\<rparr>;
        threshold \<leftarrow> flush_threshold (tl_options s4);
        if blk_CurrentSizeEstimate b + kBlockTrailerSize \<ge> threshold
        then TableLogger_Flush s4
        else Some s4
      })"


text \<open>
  \<open>EndTable\<close> takes a pointer to a filter block or \<open>NULL\<close>. The caller deletes the filter
  after the call, so the model does not return it. The function is modelled in three
  parts. The first (lines 298-309) flushes the data block, adds the index entry that is
  pending and commits.
\<close>

definition EndTable_commit :: "TableLogger \<Rightarrow> TableLogger option" where
  "EndTable_commit s =
     do {
       s1 \<leftarrow> TableLogger_Flush s;
       if \<not> tl_ok s1 then Some s1
       else do {
         let s2 = (if tl_pending_index_entry s1
                   then let succ = FindShortSuccessor (tl_last_key s1) in
                        s1\<lparr> tl_last_key := succ,
                            tl_uncommitted_indexes :=
                              tl_uncommitted_indexes s1 @ [(succ, tl_pending_index_handle s1)],
                            tl_pending_index_entry := False,
                            tl_num_uncommitted_index := Suc (tl_num_uncommitted_index s1) \<rparr>
                   else s1);
         TableLogger_Commit s2
       }
     }"

text \<open>
  The second part (lines 316-347) writes the index block and the filter block to the index
  log and, when both writes are OK, fills the pending meta handle. \<open>EndTable_filter\<close> is
  the branch on the filter (lines 328-335), which returns the size of the filter.
\<close>

definition EndTable_filter :: "Ext \<Rightarrow> BloomBlock option \<Rightarrow> TableLogger \<Rightarrow> (nat \<times> TableLogger) option" where
  "EndTable_filter X filter_block s4 =
     (case filter_block of
        Some fb \<Rightarrow> do {
          (fb1, filter_contents) \<leftarrow> Bloom_Finish fb;
          (fb2, final_filter_contents) \<leftarrow> Bloom_Finalize (crc32c_Value X) fb1;
          let (st, sink) = Lwrite [PFilter final_filter_contents] (tl_meta_sink s4);
          Some (length filter_contents, s4\<lparr>tl_status := st, tl_meta_sink := sink\<rparr>)
        }
      | None \<Rightarrow> Some (0, s4))"

definition EndTable_write :: "Ext \<Rightarrow> BloomBlock option \<Rightarrow> TableLogger \<Rightarrow> TableLogger option" where
  "EndTable_write X filter_block s3 =
     do {
       (ib1, contents) \<leftarrow> blk_Finish (tl_index_block s3);
       let size = bi_size contents;
       (ib2, final_contents) \<leftarrow> blk_Finalize None ib1;
       let offset = Ltell (tl_meta_sink s3);
       let (st, sink) = Lwrite [PBlock final_contents] (tl_meta_sink s3);
       let s4 = s3\<lparr>tl_index_block := ib2, tl_status := st, tl_meta_sink := sink\<rparr>;
       if \<not> tl_ok s4 then Some s4
       else do {
         let filter_offset = Ltell (tl_meta_sink s4);
         (filter_size, s5) \<leftarrow> EndTable_filter X filter_block s4;
         if \<not> tl_ok s5 then Some s5
         else if tl_pending_meta_entry s5 then None
         else Some (s5\<lparr> tl_index_block := blk_Reset (tl_index_block s5),
                        tl_pending_meta_handle := (tl_pending_meta_handle s5)
                          \<lparr> th_filter_offset := filter_offset, th_filter_size := filter_size,
                            th_offset := offset, th_size := size \<rparr>,
                        tl_pending_meta_entry := True \<rparr>)
       }
     }"

text \<open>
  The third part (lines 349-366) checks the cap on the tables of an epoch, adds the table
  to the meta block and counts it.
\<close>

definition EndTable_meta :: "Ext \<Rightarrow> TableLogger \<Rightarrow> TableLogger option" where
  "EndTable_meta X s6 =
     do {
       s7 \<leftarrow>
         (if tl_num_tables s6 \<ge> kMaxTablesPerEpoch X
          then Some (s6\<lparr>tl_status := AssertionFailed\<rparr>)
          else if tl_pending_meta_entry s6 then do {
            let largest = FindShortSuccessor (tl_largest_key s6);
            let handle = (tl_pending_meta_handle s6)
                  \<lparr>th_smallest_key := tl_smallest_key s6, th_largest_key := largest\<rparr>;
            mb \<leftarrow> blk_Add (EpochKey (tl_num_epochs s6) (tl_num_tables s6))
                    (VTableHandle handle) (tl_meta_block s6);
            Some (s6\<lparr> tl_largest_key := largest,
                      tl_pending_meta_handle := handle,
                      tl_meta_block := mb,
                      tl_pending_meta_entry := False \<rparr>)
          }
          else Some s6);
       if tl_ok s7
       then Some (s7\<lparr> tl_smallest_key := [], tl_largest_key := [], tl_last_key := [],
                      tl_num_tables := Suc (tl_num_tables s7) \<rparr>)
       else Some s7
     }"

definition TableLogger_EndTable :: "Ext \<Rightarrow> BloomBlock option \<Rightarrow> TableLogger \<Rightarrow> TableLogger option" where
  "TableLogger_EndTable X filter_block s =
     (if tl_finished s then None
      else do {
        s3 \<leftarrow> EndTable_commit s;
        if \<not> tl_ok s3 then Some s3
        else if blk_empty (tl_index_block s3) then Some s3
        else do {
          s6 \<leftarrow> EndTable_write X filter_block s3;
          if \<not> tl_ok s6 then Some s6
          else EndTable_meta X s6
        }
      })"

definition TableLogger_EndEpoch :: "Ext \<Rightarrow> TableLogger \<Rightarrow> TableLogger option" where
  "TableLogger_EndEpoch X s =
     (if tl_finished s then None
      else do {
        s1 \<leftarrow> TableLogger_EndTable X None s;
        if \<not> tl_ok s1 then Some s1
        else if tl_num_tables s1 = 0 then Some s1
        else if tl_num_epochs s1 \<ge> kMaxEpoches X then Some (s1\<lparr>tl_status := AssertionFailed\<rparr>)
        else Some (s1\<lparr>tl_num_tables := 0, tl_num_epochs := Suc (tl_num_epochs s1)\<rparr>)
      })"

text \<open>
  The tail padding of \<open>Finish\<close> (lines 496-507), given the length of the encoded footer.
  \<open>total_size % options_.index_buffer\<close> with an \<open>index_buffer\<close> of 0 is a division by
  zero.
\<close>

definition Finish_pad :: "nat \<Rightarrow> TableLogger \<Rightarrow> TableLogger option" where
  "Finish_pad tail_size s2 =
     (if tail_padding (tl_options s2) then
        let total_size = Ltell (tl_meta_sink s2) + tail_size in
        if index_buffer (tl_options s2) = 0 then None
        else
          let overflow = total_size mod index_buffer (tl_options s2) in
          if overflow \<noteq> 0 then
            let n = index_buffer (tl_options s2) - overflow;
                (st, sink) = Lwrite [PZeros n] (tl_meta_sink s2)
            in Some (s2\<lparr>tl_status := st, tl_meta_sink := sink\<rparr>)
          else Some s2
      else Some s2)"

text \<open>\<open>Finish\<close> returns a status.\<close>

definition TableLogger_Finish :: "Ext \<Rightarrow> TableLogger \<Rightarrow> (Status \<times> TableLogger) option" where
  "TableLogger_Finish X s =
     (if tl_finished s then None
      else do {
        s0 \<leftarrow> TableLogger_EndEpoch X s;
        let s1 = s0\<lparr>tl_finished := True\<rparr>;
        if \<not> tl_ok s1 then Some (tl_status s1, s1)
        else if tl_pending_meta_entry s1 then None
        else do {
          (mb1, contents) \<leftarrow> blk_Finish (tl_meta_block s1);
          let size = bi_size contents;
          (mb2, final_contents) \<leftarrow> blk_Finalize None mb1;
          let offset = Ltell (tl_meta_sink s1);
          let (st, sink) = Lwrite [PBlock final_contents] (tl_meta_sink s1);
          let s2 = s1\<lparr>tl_meta_block := mb2, tl_status := st, tl_meta_sink := sink\<rparr>;
          if \<not> tl_ok s2 then Some (tl_status s2, s2)
          else do {
            let epoch_index_handle = \<lparr>bh_offset = offset, bh_size = size\<rparr>;
            let footer = \<lparr>ft_epoch_index_handle = epoch_index_handle,
                          ft_num_epoches = tl_num_epochs s2\<rparr>;
            let tail = [PFooter footer (Footer_kEncodeLength X)];
            s3 \<leftarrow> Finish_pad (slice_size tail) s2;
            if tl_ok s3 then
              let (st, sink) = Lwrite tail (tl_meta_sink s3);
                  s4 = s3\<lparr>tl_status := st, tl_meta_sink := sink\<rparr>
              in Some (tl_status s4, s4)
            else Some (tl_status s3, s3)
          }
        }
      })"

text \<open>The operations of a table logger, and a sequence of them.\<close>

datatype tl_op = OpAdd bytes bytes | OpFlush | OpCommit | OpEndTable "BloomBlock option"
  | OpEndEpoch | OpFinish

fun tl_apply :: "Ext \<Rightarrow> tl_op \<Rightarrow> TableLogger \<Rightarrow> TableLogger option" where
  "tl_apply X (OpAdd key v) s = TableLogger_Add key v s"
| "tl_apply X OpFlush s = TableLogger_Flush s"
| "tl_apply X OpCommit s = TableLogger_Commit s"
| "tl_apply X (OpEndTable filter_block) s = TableLogger_EndTable X filter_block s"
| "tl_apply X OpEndEpoch s = TableLogger_EndEpoch X s"
| "tl_apply X OpFinish s = map_option snd (TableLogger_Finish X s)"

fun tl_run :: "Ext \<Rightarrow> tl_op list \<Rightarrow> TableLogger \<Rightarrow> TableLogger option" where
  "tl_run X [] s = Some s"
| "tl_run X (op # ops) s = (case tl_apply X op s of None \<Rightarrow> None | Some s' \<Rightarrow> tl_run X ops s')"

section \<open>Write buffer (deltafs_plfsio_internal.cc, lines 118-238)\<close>

text \<open>
  \<open>buffer_\<close> holds the length-prefixed keys and values and \<open>offsets_\<close> where each entry
  starts; the iterator decodes the entry at \<open>offsets_[cursor_]\<close>. The model keeps the
  entries in the order of \<open>offsets_\<close>.
\<close>

record WriteBuffer =
  wb_entries :: "(bytes \<times> bytes) list"
  wb_finished :: bool

definition new_WriteBuffer :: WriteBuffer where
  "new_WriteBuffer = \<lparr>wb_entries = [], wb_finished = False\<rparr>"

definition WriteBuffer_CurrentBufferSize :: "WriteBuffer \<Rightarrow> nat" where
  "WriteBuffer_CurrentBufferSize b =
     sum_list (map (\<lambda>(k, v). LengthPrefixed_length k + LengthPrefixed_length v) (wb_entries b))"

definition WriteBuffer_Add :: "bytes \<Rightarrow> bytes \<Rightarrow> WriteBuffer \<Rightarrow> WriteBuffer option" where
  "WriteBuffer_Add key v b =
     (if wb_finished b then None
      else if key = [] then None
      else Some (b\<lparr>wb_entries := wb_entries b @ [(key, v)]\<rparr>))"

text \<open>
  \<open>std::sort\<close> with \<open>STLLessThan\<close> leaves the entries in ascending order of their keys, and
  entries with equal keys in an order that the library chooses. The choice is the parameter
  \<open>sort_order\<close>: \<open>std_sort\<close> returns what it proposes when that is the entries in another
  order with the keys ascending, and the entries in the order of insertion among equal keys
  otherwise, so that every \<open>sort_order\<close> stands for a \<open>std::sort\<close>.
\<close>

fun is_perm :: "'a list \<Rightarrow> 'a list \<Rightarrow> bool" where
  "is_perm [] ys = (ys = [])"
| "is_perm (x # xs) ys = (x \<in> set ys \<and> is_perm xs (remove1 x ys))"

definition std_sort :: "Ext \<Rightarrow> (bytes \<times> bytes) list \<Rightarrow> (bytes \<times> bytes) list" where
  "std_sort X entries =
     (let r = sort_order X entries in
      if is_perm r entries \<and> sorted (map fst r) then r else sort_key fst entries)"

definition WriteBuffer_Finish :: "Ext \<Rightarrow> WriteBuffer \<Rightarrow> WriteBuffer option" where
  "WriteBuffer_Finish X b =
     (if wb_finished b then None
      else Some (b\<lparr>wb_entries := std_sort X (wb_entries b), wb_finished := True\<rparr>))"

definition WriteBuffer_Reset :: "WriteBuffer \<Rightarrow> WriteBuffer" where
  "WriteBuffer_Reset b = b\<lparr>wb_entries := [], wb_finished := False\<rparr>"

section \<open>Logger (deltafs_plfsio_internal.cc, lines 517-847)\<close>

text \<open>
  \<open>mem_buf_\<close> and \<open>imm_buf_\<close> point to \<open>buf0_\<close> or \<open>buf1_\<close>: the model keeps which one
  (\<open>False\<close> for \<open>buf0_\<close>), and \<open>None\<close> for \<open>NULL\<close>.
\<close>

record PlfsIoLogger =
  lg_options :: DirOptions
  lg_data_size :: nat
  lg_index_size :: nat
  lg_has_bg_compaction :: bool
  lg_pending_epoch_flush :: bool
  lg_pending_finish :: bool
  lg_table_logger :: TableLogger
  lg_buf0 :: WriteBuffer
  lg_buf1 :: WriteBuffer
  lg_mem_buf :: bool
  lg_imm_buf :: "bool option"
  lg_imm_buf_is_epoch_flush :: bool
  lg_imm_buf_is_finish :: bool
  lg_entries_per_tb :: nat
  lg_tb_bytes :: nat
  lg_bf_bits :: nat
  lg_bf_bytes :: nat

definition lg_buf :: "PlfsIoLogger \<Rightarrow> bool \<Rightarrow> WriteBuffer" where
  "lg_buf lg which = (if which then lg_buf1 lg else lg_buf0 lg)"

definition lg_set_buf :: "bool \<Rightarrow> WriteBuffer \<Rightarrow> PlfsIoLogger \<Rightarrow> PlfsIoLogger" where
  "lg_set_buf which b lg = (if which then lg\<lparr>lg_buf1 := b\<rparr> else lg\<lparr>lg_buf0 := b\<rparr>)"

text \<open>
  The constructor sizes the tables and the filter. The quotient
  \<open>ceil(8.0 * double(memtable_buffer) / double(total_bits_per_entry))\<close> is computed on
  doubles. \<open>entries_per_tb_\<close> is a \<open>uint32_t\<close>: the conversion keeps the low 32 bits of
  the quotient (beyond \<open>2 ^ 32\<close> the language leaves the conversion open; this is what a
  compiler for a 64-bit machine does). \<open>1 << lg_parts\<close> is \<open>2 ^ lg_parts\<close>, \<open>lg_parts\<close>
  being the logarithm of a number of partitions, below 31.
\<close>

definition new_PlfsIoLogger :: "DirOptions \<Rightarrow> LogSink \<Rightarrow> LogSink \<Rightarrow> PlfsIoLogger" where
  "new_PlfsIoLogger options data index =
     (let overhead_per_entry = 4 + VarintLength (key_size options) + VarintLength (value_size options);
          bytes_per_entry = key_size options + value_size options + overhead_per_entry;
          total_bits_per_entry = 8 * bytes_per_entry + bf_bits_per_key options;
          quotient = to_double (to_double (8 * to_double (of_nat (memtable_buffer options)))
                       / to_double (of_nat total_bits_per_entry));
          entries_per_tb = nat (\<lceil>quotient\<rceil> mod 2 ^ 32);
          entries_per_tb = entries_per_tb div (2 ^ lg_parts options);
          entries_per_tb = entries_per_tb div 2;
          tb_bytes = entries_per_tb * bytes_per_entry;
          bf_bits = entries_per_tb * bf_bits_per_key options;
          bf_bits = (if bf_bits > 0 \<and> bf_bits < 64 then 64 else bf_bits);
          bf_bytes = (bf_bits + 7) div 8;
          bf_bits = bf_bytes * 8
      in \<lparr> lg_options = options,
           lg_data_size = 0,
           lg_index_size = 0,
           lg_has_bg_compaction = False,
           lg_pending_epoch_flush = False,
           lg_pending_finish = False,
           lg_table_logger = new_TableLogger options data index,
           lg_buf0 = new_WriteBuffer,
           lg_buf1 = new_WriteBuffer,
           lg_mem_buf = False,
           lg_imm_buf = None,
           lg_imm_buf_is_epoch_flush = False,
           lg_imm_buf_is_finish = False,
           lg_entries_per_tb = entries_per_tb,
           lg_tb_bytes = tb_bytes,
           lg_bf_bits = bf_bits,
           lg_bf_bytes = bf_bytes \<rparr>)"

text \<open>The loop of \<open>CompactWriteBuffer\<close> over the sorted entries of the buffer.\<close>

fun Compact_loop :: "Ext \<Rightarrow> (bytes \<times> bytes) list \<Rightarrow> BloomBlock option \<Rightarrow> TableLogger
    \<Rightarrow> (BloomBlock option \<times> TableLogger) option" where
  "Compact_loop X [] bloom_filter dest = Some (bloom_filter, dest)"
| "Compact_loop X ((key, v) # rest) bloom_filter dest =
     do {
       bloom_filter' \<leftarrow>
         (case bloom_filter of
            None \<Rightarrow> Some None
          | Some bf \<Rightarrow> map_option Some (AddKey (Hash X) key bf));
       dest' \<leftarrow> TableLogger_Add key v dest;
       if \<not> tl_ok dest' then Some (bloom_filter', dest')
       else Compact_loop X rest bloom_filter' dest'
     }"

text \<open>
  What \<open>CompactWriteBuffer\<close> does to the table logger while the mutex is released
  (lines 799-822): the entries of the sorted buffer, the end of the table, and the end of
  the epoch and of the directory when the buffer is flagged for them.
\<close>

definition Compact_unlocked :: "Ext \<Rightarrow> bool \<Rightarrow> bool \<Rightarrow> BloomBlock option \<Rightarrow> (bytes \<times> bytes) list
    \<Rightarrow> TableLogger \<Rightarrow> TableLogger option" where
  "Compact_unlocked X is_epoch_flush is_finish bloom_filter entries dest =
     do {
       (bloom_filter, dest) \<leftarrow> Compact_loop X entries bloom_filter dest;
       dest \<leftarrow> (if tl_ok dest then TableLogger_EndTable X bloom_filter dest else Some dest);
       dest \<leftarrow> (if is_epoch_flush then TableLogger_EndEpoch X dest else Some dest);
       (if is_finish then map_option snd (TableLogger_Finish X dest) else Some dest)
     }"

definition CompactWriteBuffer :: "Ext \<Rightarrow> PlfsIoLogger \<Rightarrow> PlfsIoLogger option" where
  "CompactWriteBuffer X lg =
     (case lg_imm_buf lg of
        None \<Rightarrow> None
      | Some which \<Rightarrow> do {
          let pending_finish = lg_pending_finish lg;
          let pending_epoch_flush = lg_pending_epoch_flush lg;
          let is_finish = lg_imm_buf_is_finish lg;
          let is_epoch_flush = lg_imm_buf_is_epoch_flush lg;
          let dest = lg_table_logger lg;
          let data_offset = Ltell (tl_data_sink dest);
          let index_offset = Ltell (tl_meta_sink dest);
          let bloom_filter =
            (if bf_bits_per_key (lg_options lg) \<noteq> 0 \<and> lg_bf_bytes lg \<noteq> 0
             then Some (BloomBlock (bf_bits_per_key (lg_options lg)) (lg_bf_bytes lg))
             else None);
          buffer \<leftarrow> WriteBuffer_Finish X (lg_buf lg which);
          dest \<leftarrow> Compact_unlocked X is_epoch_flush is_finish bloom_filter (wb_entries buffer) dest;
          let lg1 = (lg_set_buf which buffer lg)
                \<lparr> lg_table_logger := dest,
                  lg_data_size := lg_data_size lg + (Ltell (tl_data_sink dest) - data_offset),
                  lg_index_size := lg_index_size lg + (Ltell (tl_meta_sink dest) - index_offset) \<rparr>;
          let lg2 = (if is_epoch_flush \<and> pending_epoch_flush
                     then lg1\<lparr>lg_pending_epoch_flush := False\<rparr> else lg1);
          let lg3 = (if is_finish \<and> pending_finish
                     then lg2\<lparr>lg_pending_finish := False\<rparr> else lg2);
          Some lg3
        })"

text \<open>
  \<open>MaybeScheduleCompaction\<close> hands \<open>BGWork\<close> to the compaction pool; the job runs
  \<open>DoCompaction\<close> at some later time, under the mutex.
\<close>

definition MaybeScheduleCompaction :: "PlfsIoLogger \<Rightarrow> PlfsIoLogger" where
  "MaybeScheduleCompaction lg =
     (if lg_has_bg_compaction lg then lg
      else if lg_imm_buf lg = None then lg
      else lg\<lparr>lg_has_bg_compaction := True\<rparr>)"

definition DoCompaction :: "Ext \<Rightarrow> PlfsIoLogger \<Rightarrow> PlfsIoLogger option" where
  "DoCompaction X lg =
     (if \<not> lg_has_bg_compaction lg then None
      else case lg_imm_buf lg of
        None \<Rightarrow> None
      | Some which \<Rightarrow> do {
          lg1 \<leftarrow> CompactWriteBuffer X lg;
          let lg2 = (lg_set_buf which (WriteBuffer_Reset (lg_buf lg1 which)) lg1)
                \<lparr> lg_imm_buf_is_epoch_flush := False,
                  lg_imm_buf_is_finish := False,
                  lg_imm_buf := None,
                  lg_has_bg_compaction := False \<rparr>;
          Some (MaybeScheduleCompaction lg2)
        })"

text \<open>
  \<open>bg_cv_->Wait()\<close> releases the mutex until the background job signals, which it does
  at the end of \<open>DoCompaction\<close>: the caller continues in the state the job leaves. With
  no job scheduled nobody signals and the caller never continues (\<open>None\<close>).
\<close>

definition bg_cv_Wait :: "Ext \<Rightarrow> PlfsIoLogger \<Rightarrow> PlfsIoLogger option" where
  "bg_cv_Wait X lg = (if lg_has_bg_compaction lg then DoCompaction X lg else None)"

partial_function (option) wait_while :: "Ext \<Rightarrow> (PlfsIoLogger \<Rightarrow> bool) \<Rightarrow> PlfsIoLogger \<Rightarrow> PlfsIoLogger option" where
  "wait_while X c lg = (if c lg then Option.bind (bg_cv_Wait X lg) (wait_while X c) else Some lg)"

declare wait_while.simps [code]

partial_function (option) Prepare :: "Ext \<Rightarrow> bool \<Rightarrow> bool \<Rightarrow> PlfsIoLogger \<Rightarrow> (Status \<times> PlfsIoLogger) option" where
  "Prepare X flush finish lg =
     (if \<not> tl_ok (lg_table_logger lg) then Some (tl_status (lg_table_logger lg), lg)
      else if \<not> flush \<and> WriteBuffer_CurrentBufferSize (lg_buf lg (lg_mem_buf lg)) < lg_tb_bytes lg
      then Some (OK, lg)
      else if lg_imm_buf lg \<noteq> None then
        (if non_blocking (lg_options lg) then Some (BufferFull, lg)
         else Option.bind (bg_cv_Wait X lg) (Prepare X flush finish))
      else
        let lg1 = lg\<lparr>lg_imm_buf := Some (lg_mem_buf lg)\<rparr>;
            lg2 = (if flush then lg1\<lparr>lg_imm_buf_is_epoch_flush := True\<rparr> else lg1);
            lg3 = (if finish then lg2\<lparr>lg_imm_buf_is_finish := True\<rparr> else lg2);
            current_buf = lg_mem_buf lg3;
            lg4 = MaybeScheduleCompaction lg3;
            lg5 = lg4\<lparr>lg_mem_buf := \<not> current_buf\<rparr>
        in Prepare X False False lg5)"

declare Prepare.simps [code]

definition PlfsIoLogger_Add :: "Ext \<Rightarrow> bytes \<Rightarrow> bytes \<Rightarrow> PlfsIoLogger \<Rightarrow> (Status \<times> PlfsIoLogger) option" where
  "PlfsIoLogger_Add X key v lg =
     do {
       (status, lg1) \<leftarrow> Prepare X False False lg;
       if ok status then do {
         b \<leftarrow> WriteBuffer_Add key v (lg_buf lg1 (lg_mem_buf lg1));
         Some (status, lg_set_buf (lg_mem_buf lg1) b lg1)
       }
       else Some (status, lg1)
     }"

definition PlfsIoLogger_MakeEpoch :: "Ext \<Rightarrow> bool \<Rightarrow> PlfsIoLogger \<Rightarrow> (Status \<times> PlfsIoLogger) option" where
  "PlfsIoLogger_MakeEpoch X dry_run lg =
     (let busy = (\<lambda>lg. lg_pending_epoch_flush lg \<or> lg_imm_buf lg \<noteq> None) in
      if busy lg \<and> (dry_run \<or> non_blocking (lg_options lg)) then Some (BufferFull, lg)
      else do {
        lg1 \<leftarrow> wait_while X busy lg;
        if dry_run then Some (tl_status (lg_table_logger lg1), lg1)
        else do {
          let lg2 = lg1\<lparr>lg_pending_epoch_flush := True\<rparr>;
          (status, lg3) \<leftarrow> Prepare X True False lg2;
          if \<not> ok status then Some (status, lg3\<lparr>lg_pending_epoch_flush := False\<rparr>)
          else if \<not> non_blocking (lg_options lg3) then do {
            lg4 \<leftarrow> wait_while X lg_pending_epoch_flush lg3;
            Some (status, lg4)
          }
          else Some (status, lg3)
        }
      })"

definition PlfsIoLogger_Finish :: "Ext \<Rightarrow> bool \<Rightarrow> PlfsIoLogger \<Rightarrow> (Status \<times> PlfsIoLogger) option" where
  "PlfsIoLogger_Finish X dry_run lg =
     (let busy = (\<lambda>lg. lg_pending_finish lg \<or> lg_pending_epoch_flush lg \<or> lg_imm_buf lg \<noteq> None) in
      if busy lg \<and> (dry_run \<or> non_blocking (lg_options lg)) then Some (BufferFull, lg)
      else do {
        lg1 \<leftarrow> wait_while X busy lg;
        if dry_run then Some (tl_status (lg_table_logger lg1), lg1)
        else do {
          let lg2 = lg1\<lparr>lg_pending_finish := True, lg_pending_epoch_flush := True\<rparr>;
          (status, lg3) \<leftarrow> Prepare X True True lg2;
          if \<not> ok status
          then Some (status, lg3\<lparr>lg_pending_epoch_flush := False, lg_pending_finish := False\<rparr>)
          else if \<not> non_blocking (lg_options lg3) then do {
            lg4 \<leftarrow> wait_while X (\<lambda>lg. lg_pending_epoch_flush lg \<or> lg_pending_finish lg) lg3;
            Some (status, lg4)
          }
          else Some (status, lg3)
        }
      })"

definition PlfsIoLogger_Wait :: "Ext \<Rightarrow> PlfsIoLogger \<Rightarrow> (Status \<times> PlfsIoLogger) option" where
  "PlfsIoLogger_Wait X lg = map_option (\<lambda>lg'. (OK, lg')) (wait_while X lg_has_bg_compaction lg)"

definition PlfsIoLogger_Close :: "PlfsIoLogger \<Rightarrow> Status \<times> PlfsIoLogger" where
  "PlfsIoLogger_Close lg =
     (let t = lg_table_logger lg;
          (s, data) = Lclose False (tl_data_sink t);
          t1 = t\<lparr>tl_data_sink := data\<rparr>
      in if ok s
         then let (s2, index) = Lclose False (tl_meta_sink t1)
              in (s2, lg\<lparr>lg_table_logger := t1\<lparr>tl_meta_sink := index\<rparr>\<rparr>)
         else (s, lg\<lparr>lg_table_logger := t1\<rparr>))"


section \<open>Log source and block reader\<close>

text \<open>
  Modelled from the spec: \<open>LogSource\<close> (deltafs_plfsio_xio.h declares only the sink) with
  \<open>Read(offset, n, &slice, scratch)\<close> and \<open>Size()\<close>, and the block reader \<open>Block\<close> with its
  iterator (pdlfs-common, not in the sources). What \<open>Read\<close> returns is represented by the
  length of the slice, by whether the checksum stored behind the first \<open>n - 5\<close> bytes
  matches them, and by these bytes read as a filter, as a block (the entries its iterator
  yields in order, and the status the iterator ends with) and as a footer.
\<close>

record rslice =
  rs_size :: nat
  rs_crc_ok :: bool
  rs_bytes :: bytes
  rs_entries :: "entry list"
  rs_status :: Status
  rs_footer :: "Footer option"

record LogSource =
  src_Read :: "nat \<Rightarrow> nat \<Rightarrow> Status \<times> rslice"
  src_Size :: nat

text \<open>\<open>ReadBlock\<close> (lines 849-903), always called with \<open>has_checksums = true\<close>.\<close>

definition ReadBlock :: "LogSource \<Rightarrow> DirOptions \<Rightarrow> nat \<Rightarrow> nat \<Rightarrow> Status + rslice" where
  "ReadBlock file options offset n =
     (let m = n + kBlockTrailerSize;
          (s, contents) = src_Read file offset m;
          s = (if ok s then (if rs_size contents \<noteq> m then Corruption else s) else s)
      in if \<not> ok s then Inl s
         else if verify_checksums options \<and> \<not> rs_crc_ok contents then Inl Corruption
         else Inr contents)"

text \<open>
  Modelled from the spec: the iterator of a block. A position is the list of entries from
  the cursor on (\<open>Valid\<close> is non-empty); \<open>Seek(k)\<close> moves to the first entry whose key is
  not below \<open>k\<close>; a new iterator is not valid.
\<close>

definition Seek :: "entry list \<Rightarrow> bytes \<Rightarrow> entry list" where
  "Seek entries target = dropWhile (\<lambda>e. fst e < target) entries"

text \<open>
  Modelled from the spec: the bytes of a value, and \<open>DecodeFrom\<close> of the two handles, which
  reads a handle from the front of the value and fails on a value that does not start with
  one ("varints are LEB128-style").
\<close>

fun PutVarint :: "nat \<Rightarrow> bytes" where
  "PutVarint v = (if v < 128 then [of_nat v] else of_nat (128 + v mod 128) # PutVarint (v div 128))"

declare PutVarint.simps [simp del]

fun value_bytes :: "value \<Rightarrow> bytes" where
  "value_bytes (VBytes b) = b"
| "value_bytes (VBlockHandles hs) = concat (map (\<lambda>h. PutVarint (bh_offset h) @ PutVarint (bh_size h)) hs)"
| "value_bytes (VTableHandle h) =
     PutVarint (length (th_smallest_key h)) @ th_smallest_key h @
     PutVarint (length (th_largest_key h)) @ th_largest_key h @
     PutVarint (th_filter_offset h) @ PutVarint (th_filter_size h) @
     PutVarint (th_offset h) @ PutVarint (th_size h)"

fun BlockHandle_DecodeFrom :: "value \<Rightarrow> Status + BlockHandle" where
  "BlockHandle_DecodeFrom (VBlockHandles (h # hs)) = Inr h"
| "BlockHandle_DecodeFrom v = Inl Corruption"

fun TableHandle_DecodeFrom :: "value \<Rightarrow> Status + TableHandle" where
  "TableHandle_DecodeFrom (VTableHandle h) = Inr h"
| "TableHandle_DecodeFrom v = Inl Corruption"

section \<open>Reader (deltafs_plfsio_internal.cc, lines 905-1189)\<close>

record PlfsIoReader =
  rd_options :: DirOptions
  rd_num_epoches :: nat
  rd_epoch_iter :: "entry list option"
  rd_epoch_index :: rslice
  rd_index_src :: LogSource
  rd_data_src :: LogSource

record SaverState =
  sv_dst :: bytes
  sv_found :: bool

definition SaveValue :: "SaverState \<Rightarrow> bytes \<Rightarrow> value \<Rightarrow> SaverState" where
  "SaveValue state key v = \<lparr>sv_dst = sv_dst state @ value_bytes v, sv_found = True\<rparr>"

text \<open>The first positioning of an iterator in both \<open>Get\<close>s.\<close>

definition first_pos :: "bool \<Rightarrow> bytes \<Rightarrow> entry list \<Rightarrow> entry list" where
  "first_pos unique key entries =
     (if unique then Seek entries key
      else dropWhile (\<lambda>e. key > fst e) entries)"

text \<open>\<open>Get(key, BlockHandle, saver, arg, eok)\<close>: the loop over the data block.\<close>

fun Get_block_loop :: "bool \<Rightarrow> bytes \<Rightarrow> entry list \<Rightarrow> bool \<Rightarrow> SaverState \<Rightarrow> bool \<times> SaverState" where
  "Get_block_loop unique key [] eok state = (eok, state)"
| "Get_block_loop unique key ((k, v) # rest) eok state =
     (if eok then (eok, state)
      else if k = key
      then Get_block_loop unique key rest (if unique then True else eok) (SaveValue state key v)
      else Get_block_loop unique key rest True state)"

definition Get_block :: "PlfsIoReader \<Rightarrow> bytes \<Rightarrow> BlockHandle \<Rightarrow> SaverState \<Rightarrow> Status \<times> bool \<times> SaverState" where
  "Get_block R key handle state =
     (case ReadBlock (rd_data_src R) (rd_options R) (bh_offset handle) (bh_size handle) of
        Inl status \<Rightarrow> (status, False, state)
      | Inr contents \<Rightarrow>
          let iter = first_pos (unique_keys (rd_options R)) key (rs_entries contents);
              (eok, state') = Get_block_loop (unique_keys (rd_options R)) key iter False state
          in (rs_status contents, eok, state'))"

definition KeyMayMatch :: "Ext \<Rightarrow> PlfsIoReader \<Rightarrow> bytes \<Rightarrow> BlockHandle \<Rightarrow> bool" where
  "KeyMayMatch X R key handle =
     (case ReadBlock (rd_index_src R) (rd_options R) (bh_offset handle) (bh_size handle) of
        Inr contents \<Rightarrow> BloomKeyMayMatch (Hash X) key (rs_bytes contents)
      | Inl status \<Rightarrow> True)"

text \<open>\<open>Get(key, TableHandle, saver, arg)\<close>: the loop over the index block.\<close>

fun Get_table_loop :: "PlfsIoReader \<Rightarrow> bytes \<Rightarrow> entry list \<Rightarrow> Status \<Rightarrow> bool \<Rightarrow> SaverState
    \<Rightarrow> Status \<times> SaverState" where
  "Get_table_loop R key [] status eok state = (status, state)"
| "Get_table_loop R key ((k, v) # rest) status eok state =
     (if \<not> ok status \<or> eok then (status, state)
      else case BlockHandle_DecodeFrom v of
             Inl status' \<Rightarrow> Get_table_loop R key rest status' eok state
           | Inr h \<Rightarrow>
               let (status', eok', state') = Get_block R key h state
               in Get_table_loop R key rest status' eok' state')"

definition Get_table :: "Ext \<Rightarrow> PlfsIoReader \<Rightarrow> bytes \<Rightarrow> TableHandle \<Rightarrow> SaverState \<Rightarrow> Status \<times> SaverState" where
  "Get_table X R key handle state =
     (if key < th_smallest_key handle \<or> key > th_largest_key handle then (OK, state)
      else
        let filter = \<lparr>bh_offset = th_filter_offset handle, bh_size = th_filter_size handle\<rparr> in
        if bh_size filter \<noteq> 0 \<and> \<not> KeyMayMatch X R key filter then (OK, state)
        else
          case ReadBlock (rd_index_src R) (rd_options R) (th_offset handle) (th_size handle) of
            Inl status \<Rightarrow> (status, state)
          | Inr contents \<Rightarrow>
              let iter = first_pos (unique_keys (rd_options R)) key (rs_entries contents);
                  (status, state') = Get_table_loop R key iter OK False state
              in (if ok status then rs_status contents else status, state'))"

text \<open>
  \<open>Get(key, epoch, dst)\<close>: the loop over the tables of an epoch. The epoch iterator is a
  member of the reader and keeps its position between calls. The loop ends: every round
  that goes on has found an entry of the epoch index under a new key.
\<close>

function Get_epoch_loop :: "Ext \<Rightarrow> PlfsIoReader \<Rightarrow> bytes \<Rightarrow> nat \<Rightarrow> nat \<Rightarrow> entry list \<Rightarrow> bytes
    \<Rightarrow> Status \<times> entry list \<times> bytes" where
  "Get_epoch_loop X R key epoch table iter dst =
     (let epoch_key = EpochKey epoch table;
          iter1 = (if iter = [] \<or> fst (hd iter) \<noteq> epoch_key
                   then Seek (rs_entries (rd_epoch_index R)) epoch_key else iter)
      in if iter1 = [] \<or> fst (hd iter1) \<noteq> epoch_key then (OK, iter1, dst)
         else
           case TableHandle_DecodeFrom (snd (hd iter1)) of
             Inl status \<Rightarrow> (status, tl iter1, dst)
           | Inr handle \<Rightarrow>
               let (status, state) = Get_table X R key handle \<lparr>sv_dst = dst, sv_found = False\<rparr>
               in if ok status \<and> sv_found state \<and> unique_keys (rd_options R)
                  then (status, iter1, sv_dst state)
                  else if \<not> ok status then (status, tl iter1, sv_dst state)
                  else Get_epoch_loop X R key epoch (Suc table) (tl iter1) (sv_dst state))"
  by pat_completeness auto
termination
proof (relation "measure (\<lambda>(X, R, key, epoch, table, iter, dst).
    card {t. table \<le> t \<and> EpochKey epoch t \<in> fst ` (set (rs_entries (rd_epoch_index R)) \<union> set iter)})")
  show "wf (measure (\<lambda>(X, R, key, epoch, table, iter, dst).
    card {t. table \<le> t \<and> EpochKey epoch t \<in> fst ` (set (rs_entries (rd_epoch_index R)) \<union> set iter)}))"
    by simp
next
  fix X :: Ext and R :: PlfsIoReader and key :: bytes and epoch table :: nat
    and iter :: "entry list" and dst :: bytes and epoch_key iter1 handle x status state
  assume ek: "epoch_key = EpochKey epoch table"
    and i1: "iter1 = (if iter = [] \<or> fst (hd iter) \<noteq> epoch_key
                   then Seek (rs_entries (rd_epoch_index R)) epoch_key else iter)"
    and valid: "\<not> (iter1 = [] \<or> fst (hd iter1) \<noteq> epoch_key)"
  let ?E = "set (rs_entries (rd_epoch_index R))"
  let ?A = "{t. Suc table \<le> t \<and> EpochKey epoch t \<in> fst ` (?E \<union> set (tl iter1))}"
  let ?B = "{t. table \<le> t \<and> EpochKey epoch t \<in> fst ` (?E \<union> set iter)}"
  have sub1: "set iter1 \<subseteq> ?E \<union> set iter"
  proof (cases "iter = [] \<or> fst (hd iter) \<noteq> epoch_key")
    case True
    then have "iter1 = Seek (rs_entries (rd_epoch_index R)) epoch_key" using i1 by simp
    then show ?thesis using set_dropWhileD[of _ "\<lambda>e. fst e < epoch_key" "rs_entries (rd_epoch_index R)"]
      by (auto simp: Seek_def)
  next
    case False
    then show ?thesis using i1 by auto
  qed
  have "set (tl iter1) \<subseteq> set iter1" using valid by (cases iter1) auto
  with sub1 have sub: "set (tl iter1) \<subseteq> ?E \<union> set iter" by blast
  have "hd iter1 \<in> set iter1" using valid by simp
  then have "hd iter1 \<in> ?E \<union> set iter" using sub1 by blast
  then have "fst (hd iter1) \<in> fst ` (?E \<union> set iter)" by (rule imageI)
  then have inB: "table \<in> ?B" using valid ek by simp
  have "?A \<subseteq> ?B" using sub by auto
  moreover have "table \<notin> ?A" by simp
  ultimately have "?A \<subset> ?B" using inB by blast
  moreover have "finite ?B"
    by (rule finite_subset[OF _ finite_EpochKey_tables[of "fst ` (?E \<union> set iter)" epoch]]) auto
  ultimately have "card ?A < card ?B" by (rule psubset_card_mono[rotated])
  then show "((X, R, key, epoch, Suc table, tl iter1, sv_dst state), (X, R, key, epoch, table, iter, dst))
    \<in> measure (\<lambda>(X, R, key, epoch, table, iter, dst).
    card {t. table \<le> t \<and> EpochKey epoch t \<in> fst ` (set (rs_entries (rd_epoch_index R)) \<union> set iter)})"
    by simp
qed

declare Get_epoch_loop.simps [simp del]

definition Get_epoch :: "Ext \<Rightarrow> PlfsIoReader \<Rightarrow> bytes \<Rightarrow> nat \<Rightarrow> entry list \<Rightarrow> bytes
    \<Rightarrow> Status \<times> entry list \<times> bytes" where
  "Get_epoch X R key epoch iter dst =
     (let (status, iter', dst') = Get_epoch_loop X R key epoch 0 iter dst
      in (if ok status then rs_status (rd_epoch_index R) else status, iter', dst'))"

text \<open>\<open>Gets(key, dst)\<close>: the loop over the epochs.\<close>

function Gets_loop :: "Ext \<Rightarrow> PlfsIoReader \<Rightarrow> bytes \<Rightarrow> nat \<Rightarrow> entry list \<Rightarrow> bytes
    \<Rightarrow> Status \<times> entry list \<times> bytes" where
  "Gets_loop X R key epoch iter dst =
     (let (status, iter', dst') = Get_epoch X R key epoch iter dst
      in if epoch < rd_num_epoches R - 1
         then (if ok status then Gets_loop X R key (Suc epoch) iter' dst' else (status, iter', dst'))
         else (status, iter', dst'))"
  by pat_completeness auto
termination
  by (relation "measure (\<lambda>(X, R, key, epoch, iter, dst). rd_num_epoches R - epoch)") auto

declare Gets_loop.simps [simp del]

definition Gets :: "Ext \<Rightarrow> bytes \<Rightarrow> bytes \<Rightarrow> PlfsIoReader \<Rightarrow> Status \<times> bytes \<times> PlfsIoReader" where
  "Gets X key dst R =
     (if rd_num_epoches R \<noteq> 0 then
        let iter = (case rd_epoch_iter R of None \<Rightarrow> [] | Some iter \<Rightarrow> iter);
            (status, iter', dst') = Gets_loop X R key 0 iter dst
        in (status, dst', R\<lparr>rd_epoch_iter := Some iter'\<rparr>)
      else (OK, dst, R))"

text \<open>\<open>PlfsIoReader::Open\<close>.\<close>

definition PlfsIoReader_Open :: "Ext \<Rightarrow> DirOptions \<Rightarrow> LogSource \<Rightarrow> LogSource \<Rightarrow> Status + PlfsIoReader" where
  "PlfsIoReader_Open X options data index =
     (let n = Footer_kEncodeLength X;
          (status, input) =
            (if src_Size index \<ge> n then src_Read index (src_Size index - n) n
             else (Corruption, \<lparr>rs_size = 0, rs_crc_ok = False, rs_bytes = [], rs_entries = [],
                     rs_status = Corruption, rs_footer = None\<rparr>))
      in if \<not> ok status then Inl status
         else case rs_footer input of
           None \<Rightarrow> Inl Corruption
         | Some footer \<Rightarrow>
             let handle = ft_epoch_index_handle footer in
             case ReadBlock index options (bh_offset handle) (bh_size handle) of
               Inl status \<Rightarrow> Inl status
             | Inr contents \<Rightarrow>
                 Inr \<lparr> rd_options = options, rd_num_epoches = ft_num_epoches footer,
                       rd_epoch_iter = None, rd_epoch_index = contents,
                       rd_index_src = index, rd_data_src = data \<rparr>)"

section \<open>Reading back what a sink has written\<close>

text \<open>
  Modelled from the spec: a \<open>LogSource\<close> over the log that a sink has written. A read
  that starts where a block, a filter or the footer starts and has its length returns it;
  the checksum of a block that the builder has finalized matches, the one of a filter is
  compared; "reading past EOF yields a truncated slice", and any other read yields bytes
  that are no block.
\<close>

fun piece_at :: "piece list \<Rightarrow> nat \<Rightarrow> piece option" where
  "piece_at [] off = None"
| "piece_at (p # ps) off =
     (if piece_size p = 0 then piece_at ps off
      else if off = 0 then Some p
      else if off < piece_size p then None
      else piece_at ps (off - piece_size p))"

definition no_block :: "nat \<Rightarrow> rslice" where
  "no_block n = \<lparr>rs_size = n, rs_crc_ok = False, rs_bytes = [], rs_entries = [],
     rs_status = Corruption, rs_footer = None\<rparr>"

definition log_Read :: "(bytes \<Rightarrow> u32) \<Rightarrow> piece list \<Rightarrow> nat \<Rightarrow> nat \<Rightarrow> Status \<times> rslice" where
  "log_Read crc pieces off m =
     (let got = min m (slice_size pieces - off) in
      case piece_at pieces off of
        Some (PBlock b) \<Rightarrow>
          if m = bi_size b + kBlockTrailerSize
          then (OK, \<lparr>rs_size = m, rs_crc_ok = True, rs_bytes = [], rs_entries = bi_entries b,
                     rs_status = OK, rs_footer = None\<rparr>)
          else (OK, no_block got)
      | Some (PFilter f) \<Rightarrow>
          if m = length f \<and> kBlockTrailerSize \<le> m
          then (OK, \<lparr>rs_size = m,
                     rs_crc_ok = (drop (m - 4) f = EncodeFixed32 (crc32c_Mask (crc (take (m - 4) f)))),
                     rs_bytes = take (m - kBlockTrailerSize) f, rs_entries = [],
                     rs_status = Corruption, rs_footer = None\<rparr>)
          else (OK, no_block got)
      | Some (PFooter footer n) \<Rightarrow>
          if m = n then (OK, (no_block m)\<lparr>rs_footer := Some footer\<rparr>) else (OK, no_block got)
      | _ \<Rightarrow> (OK, no_block got))"

definition written :: "LogSink \<Rightarrow> piece list" where
  "written s = (case sink_file s of None \<Rightarrow> [] | Some file \<Rightarrow> wf_written file)"

definition LogSource_of :: "Ext \<Rightarrow> LogSink \<Rightarrow> LogSource" where
  "LogSource_of X s = \<lparr>src_Read = log_Read (crc32c_Value X) (written s), src_Size = slice_size (written s)\<rparr>"

text \<open>
  A run of the whole directory: a logger over two fresh logs, the calls of the caller in
  order, then a reader over the logs, and \<open>Gets\<close> into an empty buffer.
\<close>

datatype call = CAdd bytes bytes | CMakeEpoch | CFinish

fun run_call :: "Ext \<Rightarrow> call \<Rightarrow> PlfsIoLogger \<Rightarrow> (Status \<times> PlfsIoLogger) option" where
  "run_call X (CAdd key v) lg = PlfsIoLogger_Add X key v lg"
| "run_call X CMakeEpoch lg = PlfsIoLogger_MakeEpoch X False lg"
| "run_call X CFinish lg = PlfsIoLogger_Finish X False lg"

fun run_calls :: "Ext \<Rightarrow> call list \<Rightarrow> PlfsIoLogger \<Rightarrow> (Status list \<times> PlfsIoLogger) option" where
  "run_calls X [] lg = Some ([], lg)"
| "run_calls X (c # cs) lg =
     do {
       (status, lg1) \<leftarrow> run_call X c lg;
       (statuses, lg2) \<leftarrow> run_calls X cs lg1;
       Some (status # statuses, lg2)
     }"

definition new_LogSink :: LogSink where
  "new_LogSink =
     \<lparr> sink_offset = 0,
       sink_file = Some \<lparr> wf_written = [], wf_calls = 0, wf_append_result = (\<lambda>n. OK),
                          wf_flush_result = (\<lambda>n. OK), wf_close_result = OK \<rparr> \<rparr>"

definition write_then_Gets :: "Ext \<Rightarrow> DirOptions \<Rightarrow> call list \<Rightarrow> bytes
    \<Rightarrow> (Status list \<times> (Status + Status \<times> bytes)) option" where
  "write_then_Gets X options calls key =
     do {
       (statuses, lg) \<leftarrow> run_calls X calls (new_PlfsIoLogger options new_LogSink new_LogSink);
       let data = LogSource_of X (tl_data_sink (lg_table_logger lg));
       let index = LogSource_of X (tl_meta_sink (lg_table_logger lg));
       Some (statuses,
             case PlfsIoReader_Open X options data index of
               Inl status \<Rightarrow> Inl status
             | Inr reader \<Rightarrow> (case Gets X key [] reader of (status, dst, reader') \<Rightarrow> Inr (status, dst)))
     }"


section \<open>Environments and examples\<close>

text \<open>A sink whose file is open and whose appends and flushes never fail.\<close>

definition sink_good :: "LogSink \<Rightarrow> bool" where
  "sink_good s = (case sink_file s of None \<Rightarrow> False
     | Some f \<Rightarrow> (\<forall>n. wf_append_result f n = OK) \<and> (\<forall>n. wf_flush_result f n = OK))"


definition is_Some :: "'a option \<Rightarrow> bool" where
  "is_Some x = (case x of None \<Rightarrow> False | Some y \<Rightarrow> True)"

text \<open>
  A small build and small options for running the model: caps of 4, blocks of 32 bytes that
  are not padded, a block buffer of 40 bytes, write buffers of 2 entries (46 bytes), tail
  padding to multiples of 100 bytes.
\<close>

definition ex_Ext :: Ext where
  "ex_Ext = \<lparr>Hash = (\<lambda>key seed. seed + of_nat (length key)), crc32c_Value = (\<lambda>b. of_nat (length b)),
     kMaxEpoches = 4, kMaxTablesPerEpoch = 4, Footer_kEncodeLength = 32,
     sort_order = sort_key fst\<rparr>"

definition ex_options :: DirOptions where
  "ex_options = \<lparr>block_size = 32, block_util = 1, block_padding = False, block_buffer = 40,
     memtable_buffer = 92, lg_parts = 0, unique_keys = True, bf_bits_per_key = 0,
     verify_checksums = True, non_blocking = False, tail_padding = True, index_buffer = 100,
     key_size = 1, value_size = 16\<rparr>"

definition closed_LogSink :: LogSink where
  "closed_LogSink = snd (Lclose False new_LogSink)"

text \<open>A table logger whose first write has failed, on logs that are closed.\<close>

definition failed_logger :: TableLogger where
  "failed_logger = the (tl_run ex_Ext [OpAdd [1] [2], OpEndTable None]
      (new_TableLogger ex_options closed_LogSink closed_LogSink))"

text \<open>A table logger after one table, a new one, and a table of one entry.\<close>

definition one_table :: TableLogger where
  "one_table = the (tl_run ex_Ext [OpAdd [1] [2], OpEndTable None]
      (new_TableLogger ex_options new_LogSink new_LogSink))"

definition fresh_logger :: TableLogger where
  "fresh_logger = new_TableLogger ex_options new_LogSink new_LogSink"

text \<open>
  A reader over an index log whose reads at offset 100 fail with an I/O error and whose
  other reads return an index block with one entry, and over a data log whose reads return
  a data block that holds the key \<open>[1]\<close>; a table whose filter is at offset 100.
\<close>

definition ex_block :: "entry list \<Rightarrow> nat \<Rightarrow> rslice" where
  "ex_block entries n = \<lparr>rs_size = n, rs_crc_ok = True, rs_bytes = [], rs_entries = entries,
     rs_status = OK, rs_footer = None\<rparr>"

definition broken_filter_reader :: PlfsIoReader where
  "broken_filter_reader =
     \<lparr> rd_options = ex_options, rd_num_epoches = 1, rd_epoch_iter = None,
       rd_epoch_index = ex_block [] 0,
       rd_index_src = \<lparr> src_Read = (\<lambda>off n. if off = 100 then (IOError, no_block 0)
            else (OK, ex_block [([1], VBlockHandles [\<lparr>bh_offset = 0, bh_size = 28\<rparr>])] n)),
          src_Size = 200 \<rparr>,
       rd_data_src = \<lparr> src_Read = (\<lambda>off n. (OK, ex_block [([1], VBytes [9])] n)), src_Size = 33 \<rparr> \<rparr>"

definition broken_filter_table :: TableHandle where
  "broken_filter_table = \<lparr>th_smallest_key = [1], th_largest_key = [2], th_filter_offset = 100,
     th_filter_size = 8, th_offset = 0, th_size = 20\<rparr>"




text \<open>
  Options under which every entry of 32 bytes fills a data block of its own and a table
  commits its data blocks together, and a directory of two such entries.
\<close>

definition two_block_options :: DirOptions where
  "two_block_options = ex_options\<lparr>block_buffer := 200, memtable_buffer := 184\<rparr>"

definition two_block_calls :: "call list" where
  "two_block_calls = [CAdd [97] (replicate 32 1), CAdd [98] (replicate 32 2), CFinish]"

text \<open>
  The operations of one table, the entries that a compaction adds and the \<open>EndTable\<close>
  with its filter, and those of one epoch, its tables and the \<open>EndEpoch\<close>.
\<close>

type_synonym table = "(bytes \<times> bytes) list \<times> BloomBlock option"

definition table_ops :: "table \<Rightarrow> tl_op list" where
  "table_ops t = map (\<lambda>(key, v). OpAdd key v) (fst t) @ [OpEndTable (snd t)]"

definition epoch_ops :: "table list \<Rightarrow> tl_op list" where
  "epoch_ops ts = concat (map table_ops ts) @ [OpEndEpoch]"

definition small_table :: table where
  "small_table = ([([1], [2])], None)"

text \<open>
  A table logger has data when its data block holds entries or a flushed block waits for
  its index entry; it is idle when \<open>EndTable\<close> finds nothing to flush, commit or write.
\<close>

definition has_data :: "TableLogger \<Rightarrow> bool" where
  "has_data s = (\<not> blk_empty (tl_data_block s) \<or>
     (tl_pending_index_entry s \<and> blk_buffer_size (tl_data_block s) \<noteq> 0))"

definition idle :: "TableLogger \<Rightarrow> bool" where
  "idle s = (blk_empty (tl_data_block s) \<and> blk_buffer_size (tl_data_block s) = 0 \<and>
     \<not> tl_pending_index_entry s \<and> blk_empty (tl_index_block s))"

section \<open>The Bloom filter: probes and membership\<close>

text \<open>The bit of a filter at a bit position.\<close>


definition bit_at :: "bytes \<Rightarrow> nat \<Rightarrow> bool" where
  "bit_at sp pos = bit (sp ! (pos div 8)) (pos mod 8)"

lemma test_bit_at: "(array ! (p div 8) AND 2 ^ (p mod 8) = (0::byte)) = (\<not> bit_at array p)"
  by (simp add: bit_at_def and_exp_eq_0_iff_not_bit)

lemma MayMatch_loop_bits:
  "MayMatch_loop array bits delta n h =
     (\<forall>j<n. bit_at array (unat (h + of_nat j * delta) mod bits))"
proof (induction n arbitrary: h)
  case 0 show ?case by simp
next
  case (Suc n)
  have "(\<forall>j<Suc n. bit_at array (unat (h + of_nat j * delta) mod bits)) =
        (bit_at array (unat h mod bits) \<and> (\<forall>j<n. bit_at array (unat (h + of_nat (Suc j) * delta) mod bits)))"
    by (metis (no_types, lifting) add.right_neutral less_Suc_eq_0_disj mult_zero_left of_nat_0)
  moreover have "\<And>j. h + of_nat (Suc j) * delta = (h + delta) + of_nat j * delta"
    by (simp add: algebra_simps)
  ultimately show ?case
    using Suc.IH[of "h + delta"]
    by (simp add: Let_def test_bit_at del: of_nat_Suc)
qed

lemma bit_at_update:
  "i < length sp \<Longrightarrow> m < 8 \<Longrightarrow> bit_at (sp[i := (sp ! i) OR 2 ^ m]) pos =
     (bit_at sp pos \<or> (pos div 8 = i \<and> pos mod 8 = m))"
  by (auto simp: bit_at_def nth_list_update bit_or_iff bit_exp_iff bit_simps)

lemma AddKey_loop_spec:
  "AddKey_loop bits delta n h sp = Some sp' \<Longrightarrow> bits \<le> 8 * (length sp - 1) \<Longrightarrow>
     length sp' = length sp \<and> last sp' = last sp \<and>
     (\<forall>pos. bit_at sp pos \<longrightarrow> bit_at sp' pos) \<and>
     (\<forall>j<n. bit_at sp' (unat (h + of_nat j * delta) mod bits))"
proof (induction n arbitrary: h sp)
  case 0 then show ?case by simp
next
  case (Suc n)
  let ?bp = "unat h mod bits"
  let ?sp1 = "sp[?bp div 8 := (sp ! (?bp div 8)) OR (push_bit (?bp mod 8) 1)]"
  from Suc.prems have b0: "bits \<noteq> 0" and inr: "?bp div 8 < length sp"
    and run: "AddKey_loop bits delta n (h + delta) ?sp1 = Some sp'"
    by (auto simp: Let_def split: if_splits)
  have lt: "?bp div 8 < length sp - 1" using b0 Suc.prems(2)
    by (metis (no_types, lifting) bot_nat_0.not_eq_extremum div_less_iff_less_mult less_le_trans mod_less_divisor mult.commute zero_less_numeral)
  from Suc.IH[OF run] Suc.prems(2)
  have IH: "length sp' = length sp" "last sp' = last ?sp1"
     "\<forall>pos. bit_at ?sp1 pos \<longrightarrow> bit_at sp' pos"
     "\<forall>j<n. bit_at sp' (unat (h + delta + of_nat j * delta) mod bits)" by auto
  have l1: "last ?sp1 = last sp" using lt
    by (metis (no_types, lifting) last_list_update less_not_refl list_update_nonempty length_greater_0_conv less_nat_zero_code list.size(3) zero_diff)
  have s1: "bit_at ?sp1 ?bp" using inr by (simp add: bit_at_update)
  have mono: "\<forall>pos. bit_at sp pos \<longrightarrow> bit_at sp' pos"
    using IH(3) inr by (simp add: bit_at_update)
  have "\<And>j. j < Suc n \<Longrightarrow> bit_at sp' (unat (h + of_nat j * delta) mod bits)"
  proof -
    fix j assume "j < Suc n"
    show "bit_at sp' (unat (h + of_nat j * delta) mod bits)"
    proof (cases j)
      case 0 then show ?thesis using s1 IH(3) by simp
    next
      case (Suc j')
      then have "j' < n" using \<open>j < Suc n\<close> by simp
      then show ?thesis using IH(4) Suc by (simp add: algebra_simps)
    qed
  qed
  then show ?case using IH(1) l1 IH(2) mono by simp
qed


lemma AddKey_loop_total:
  "0 < bits \<Longrightarrow> bits \<le> 8 * (length sp - 1) \<Longrightarrow> \<exists>sp'. AddKey_loop bits delta n h sp = Some sp'"
proof (induction n arbitrary: h sp)
  case 0 show ?case by simp
next
  case (Suc n)
  let ?bp = "unat h mod bits"
  have "?bp < bits" using Suc.prems(1) by simp
  then have "?bp div 8 < length sp" using Suc.prems(2) by auto
  then show ?case using Suc.prems Suc.IH by (simp add: Let_def)
qed

definition probes_set :: "(bytes \<Rightarrow> u32 \<Rightarrow> u32) \<Rightarrow> bytes \<Rightarrow> nat \<Rightarrow> nat \<Rightarrow> bytes \<Rightarrow> bool" where
  "probes_set H sp bits k key =
     (\<forall>j<k. bit_at sp (unat (BloomHash H key + of_nat j * rotr17 (BloomHash H key)) mod bits))"

definition bloom_wf :: "BloomBlock \<Rightarrow> bool" where
  "bloom_wf b = (bb_bits b \<le> 8 * (length (bb_space b) - 1))"

lemma AddKey_spec:
  assumes "AddKey H key b = Some b'" "bloom_wf b"
  shows "bb_bits b' = bb_bits b" "bb_k b' = bb_k b" "bb_finished b' = bb_finished b"
    "length (bb_space b') = length (bb_space b)" "last (bb_space b') = last (bb_space b)"
    "bloom_wf b'"
    "probes_set H (bb_space b') (bb_bits b) (bb_k b) key"
    "probes_set H (bb_space b) (bb_bits b) (bb_k b) key' \<Longrightarrow>
       probes_set H (bb_space b') (bb_bits b) (bb_k b) key'"
proof -
  from assms(1) obtain sp' where
    run: "AddKey_loop (bb_bits b) (rotr17 (BloomHash H key)) (bb_k b) (BloomHash H key) (bb_space b) = Some sp'"
    and b': "b' = b\<lparr>bb_space := sp'\<rparr>"
    by (auto simp: AddKey_def Let_def split: if_splits)
  note sp = AddKey_loop_spec[OF run assms(2)[unfolded bloom_wf_def]]
  show "bb_bits b' = bb_bits b" "bb_k b' = bb_k b" "bb_finished b' = bb_finished b"
    by (simp_all add: b')
  show "length (bb_space b') = length (bb_space b)" "last (bb_space b') = last (bb_space b)"
    using sp by (simp_all add: b')
  show "bloom_wf b'" using sp assms(2) by (simp add: b' bloom_wf_def)
  show "probes_set H (bb_space b') (bb_bits b) (bb_k b) key"
    using sp by (simp add: b' probes_set_def)
  show "probes_set H (bb_space b') (bb_bits b) (bb_k b) key'"
    if "probes_set H (bb_space b) (bb_bits b) (bb_k b) key'"
    using sp that by (simp add: b' probes_set_def)
qed

lemma AddKeys_spec:
  "AddKeys H keys b = Some b' \<Longrightarrow> bloom_wf b \<Longrightarrow>
     bb_bits b' = bb_bits b \<and> bb_k b' = bb_k b \<and> bb_finished b' = bb_finished b \<and>
     length (bb_space b') = length (bb_space b) \<and> last (bb_space b') = last (bb_space b) \<and>
     (\<forall>key. probes_set H (bb_space b) (bb_bits b) (bb_k b) key \<or> key \<in> set keys \<longrightarrow>
         probes_set H (bb_space b') (bb_bits b) (bb_k b) key)"
proof (induction keys arbitrary: b)
  case Nil then show ?case by simp
next
  case (Cons key keys)
  from Cons.prems(1) obtain b1 where a: "AddKey H key b = Some b1"
    and r: "AddKeys H keys b1 = Some b'"
    by (auto split: option.splits)
  note s1 = AddKey_spec[OF a Cons.prems(2)]
  note IH = Cons.IH[OF r s1(6)]
  show ?case using IH s1(1-5) s1(7) s1(8) by auto
qed

lemma AddKeys_total:
  "bloom_wf b \<Longrightarrow> 0 < bb_bits b \<Longrightarrow> \<not> bb_finished b \<Longrightarrow> \<exists>b'. AddKeys H keys b = Some b'"
proof (induction keys arbitrary: b)
  case Nil show ?case by simp
next
  case (Cons key keys)
  obtain sp' where run: "AddKey_loop (bb_bits b) (rotr17 (BloomHash H key)) (bb_k b) (BloomHash H key) (bb_space b) = Some sp'"
    using AddKey_loop_total[OF Cons.prems(2) Cons.prems(1)[unfolded bloom_wf_def]] by blast
  then have a: "AddKey H key b = Some (b\<lparr>bb_space := sp'\<rparr>)"
    using Cons.prems(3) by (simp add: AddKey_def Let_def)
  note s1 = AddKey_spec[OF a Cons.prems(1)]
  show ?case using Cons.IH[OF s1(6)] s1(1) s1(3) Cons.prems a by simp
qed

lemma probes_of_range: "1 \<le> probes_of n \<and> probes_of n \<le> 30"
  by (simp add: probes_of_def Let_def)

lemma sint_probes: "k \<le> 30 \<Longrightarrow> sint (of_nat k :: byte) = int k"
  by (simp add: signed_of_nat signed_take_bit_int_eq_self)

lemma BloomBlock_wf: "bloom_wf (BloomBlock bpk m)"
  by (simp add: bloom_wf_def BloomBlock_def Let_def)

lemma BloomKeyMayMatch_probes:
  assumes "length sp = Suc m" "0 < m" "last sp = of_nat k" "k \<le> 30"
  shows "BloomKeyMayMatch H key sp = probes_set H sp (8 * m) k key"
proof -
  have "sp ! m = of_nat k" using assms(1,3)
    by (metis diff_Suc_1 last_conv_nth length_0_conv nat.distinct(1))
  then show ?thesis using assms
    by (simp add: BloomKeyMayMatch_def Let_def sint_probes MayMatch_loop_bits probes_set_def mult.commute)
qed


text \<open>Bounds of \<open>ln 2\<close>, from the series of the exponential.\<close>
lemma exp_half_quarter: "exp (13/80 :: real) ^ 4 < 2"
proof -
  have "exp (13/80 :: real) \<le> 1 + 13/80 + (13/80)\<^sup>2"
    by (rule exp_bound) simp_all
  then have "exp (13/80 :: real) \<le> 7609/6400" by (simp add: power2_eq_square)
  then have "exp (13/80 :: real) ^ 4 \<le> (7609/6400) ^ 4"
    by (intro power_mono) simp_all
  also have "\<dots> < 2" by (simp add: power4_eq_xxxx)
  finally show ?thesis .
qed

lemma ln2_lower: "(13/20 :: real) < ln 2"
proof -
  have "exp (13/20 :: real) = exp (13/80) ^ 4"
    by (simp add: exp_of_nat_mult[symmetric] del: exp_of_nat_mult)
  then have "exp (13/20 :: real) < 2" using exp_half_quarter by simp
  then have "exp (13/20 :: real) < exp (ln 2)" by simp
  then show ?thesis by (simp only: exp_less_cancel_iff)
qed

lemma ln2_upper: "ln (2::real) < 3/4"
proof -
  have "(2::real) < 1 + 3/4 + (3/4)\<^sup>2 / 2" by (simp add: power2_eq_square)
  also have "\<dots> \<le> exp (3/4)" by (rule exp_lower_Taylor_quadratic) simp
  finally have "exp (ln 2) < exp (3/4 :: real)" by simp
  then show ?thesis by (simp only: exp_less_cancel_iff)
qed

lemma round_10_ln2: "round (real 10 * ln 2) = 7"
proof -
  have "13/2 < 10 * ln (2::real)" "10 * ln (2::real) < 15/2"
    using ln2_lower ln2_upper by simp_all
  then show ?thesis by (simp add: round_def) linarith
qed


text \<open>
  C2, as stated: the probe count stored as the final byte of the filter is
  \<open>max(1, min(30, round(bits_per_key * ln 2)))\<close>. With 10 bits per key the constructor
  stores 6 (it multiplies by 0.69 and rounds down), and the formula gives 7.
\<close>

theorem probe_count_round_ln2_counterexample:
  "unat (last (bb_space (BloomBlock 10 8))) = 6 \<and>
   max 1 (min 30 (round (real 10 * ln 2))) = 7"
proof -
  have "unat (last (bb_space (BloomBlock 10 8))) = 6"
    by (simp add: BloomBlock_def probes_of_def Let_def)
  then show ?thesis using round_10_ln2 by simp
qed

text \<open>
  C2, amended: for every \<open>bits_per_key\<close>, every filter size and every list of keys added,
  the final byte of the finished filter is \<open>max(1, min(30, floor(bits_per_key * 0.69)))\<close>:
  the product with 0.69 rounded down, as the comment of the constructor says.
\<close>

theorem probe_count_stored_last:
  assumes "AddKeys H keys (BloomBlock bits_per_key m) = Some b"
    and "Bloom_Finish b = Some (b', flt)"
  shows "int (unat (last flt)) = max 1 (min 30 \<lfloor>real bits_per_key * 69 / 100\<rfloor>)"
proof -
  note sp = AddKeys_spec[OF assms(1) BloomBlock_wf]
  have f: "flt = bb_space b" using assms(2) by (auto simp: Bloom_Finish_def split: if_splits)
  have "last (bb_space (BloomBlock bits_per_key m)) = of_nat (probes_of bits_per_key)"
    by (simp add: BloomBlock_def Let_def)
  then have "last flt = of_nat (probes_of bits_per_key)" using sp f by simp
  moreover have "unat (of_nat (probes_of bits_per_key) :: byte) = probes_of bits_per_key"
    using probes_of_range[of bits_per_key] by (intro of_nat_inverse[OF refl]) simp
  moreover have "\<lfloor>real bits_per_key * 69 / 100\<rfloor> = int (bits_per_key * 69 div 100)"
  proof -
    have "real bits_per_key * 69 / 100 = real (bits_per_key * 69) / real 100" by simp
    then show ?thesis by (simp only: floor_divide_of_nat_eq)
  qed
  ultimately show ?thesis
    by (simp add: probes_of_def Let_def)
qed

theorem probe_count_stored_last_witness:
  "int (unat (last (bb_space (BloomBlock 10 8)))) = max 1 (min 30 \<lfloor>real 10 * 69 / 100\<rfloor>)"
  using probe_count_stored_last[of "\<lambda>key seed. seed" "[]" 10 8 "BloomBlock 10 8"
      "(BloomBlock 10 8)\<lparr>bb_finished := True\<rparr>" "bb_space (BloomBlock 10 8)"]
  by (simp add: Bloom_Finish_def BloomBlock_def Let_def)

text \<open>
  C3: for every list of keys added to a filter of at least one byte and every key of the
  list, adding the keys and finishing the filter succeeds, and \<open>BloomKeyMayMatch\<close> on the
  finished filter bytes is true for the key: no false negatives, whatever the hash
  function is.
\<close>

theorem no_false_negatives:
  assumes "0 < m" and "key \<in> set keys"
  shows "\<exists>b b' flt. AddKeys H keys (BloomBlock bits_per_key m) = Some b \<and>
           Bloom_Finish b = Some (b', flt) \<and> BloomKeyMayMatch H key flt"
proof -
  let ?b0 = "BloomBlock bits_per_key m"
  have b0: "bb_bits ?b0 = 8 * m" "\<not> bb_finished ?b0" "bb_k ?b0 = probes_of bits_per_key"
    "length (bb_space ?b0) = Suc m" "last (bb_space ?b0) = of_nat (probes_of bits_per_key)"
    by (simp_all add: BloomBlock_def Let_def)
  obtain b where run: "AddKeys H keys ?b0 = Some b"
    using AddKeys_total[OF BloomBlock_wf, of bits_per_key m H keys] assms(1) b0 by auto
  note sp = AddKeys_spec[OF run BloomBlock_wf]
  have fin: "Bloom_Finish b = Some (b\<lparr>bb_finished := True\<rparr>, bb_space b)"
    using sp b0 by (simp add: Bloom_Finish_def)
  have "probes_set H (bb_space b) (8 * m) (probes_of bits_per_key) key"
    using sp assms(2) b0 by auto
  then have "BloomKeyMayMatch H key (bb_space b)"
    using BloomKeyMayMatch_probes[of "bb_space b" m "probes_of bits_per_key" H key]
      sp b0 assms(1) probes_of_range[of bits_per_key] by simp
  then show ?thesis using run fin by blast
qed

theorem no_false_negatives_witness:
  "\<exists>b b' flt. AddKeys (\<lambda>key seed. seed + of_nat (length key)) [[1, 2], [3]] (BloomBlock 10 8) = Some b \<and>
           Bloom_Finish b = Some (b', flt) \<and> BloomKeyMayMatch (\<lambda>key seed. seed + of_nat (length key)) [3] flt"
  using no_false_negatives[of 8 "[3]" "[[1, 2], [3]]" "\<lambda>key seed. seed + of_nat (length key)" 10]
  by simp


section \<open>The log sink: offsets\<close>

text \<open>
  C10: \<open>Lwrite\<close> on a closed log, in particular after \<open>Lclose\<close>, returns
  \<open>AssertionFailed\<close> and leaves the sink, with its logical offset, as it is; an \<open>Lwrite\<close>
  that returns OK adds exactly the size of the data to the offset, one that fails leaves
  the offset as it is, so \<open>Ltell\<close> never decreases.
\<close>

theorem Lwrite_offset:
  "Lwrite data (snd (Lclose sync s)) = (AssertionFailed, snd (Lclose sync s)) \<and>
   (sink_file s = None \<longrightarrow> Lwrite data s = (AssertionFailed, s)) \<and>
   (\<forall>st s'. Lwrite data s = (st, s') \<longrightarrow>
      (st = OK \<longrightarrow> Ltell s' = Ltell s + slice_size data) \<and>
      (st \<noteq> OK \<longrightarrow> Ltell s' = Ltell s) \<and>
      Ltell s \<le> Ltell s')"
proof (intro conjI allI impI)
  show "Lwrite data (snd (Lclose sync s)) = (AssertionFailed, snd (Lclose sync s))"
    by (simp add: Lwrite_def Lclose_def split: option.splits)
next
  assume "sink_file s = None"
  then show "Lwrite data s = (AssertionFailed, s)" by (simp add: Lwrite_def)
next
  fix st s' assume w: "Lwrite data s = (st, s')"
  { assume "st = OK"
    with w show "Ltell s' = Ltell s + slice_size data"
      by (auto simp: Lwrite_def Ltell_def ok_def Let_def wf_Flush_def
          split: option.splits prod.splits if_splits) }
  { assume "st \<noteq> OK"
    with w show "Ltell s' = Ltell s"
      by (auto simp: Lwrite_def Ltell_def ok_def Let_def wf_Flush_def
          split: option.splits prod.splits if_splits) }
  from w show "Ltell s \<le> Ltell s'"
    by (auto simp: Lwrite_def Ltell_def ok_def Let_def wf_Flush_def
        split: option.splits prod.splits if_splits)
qed

theorem Lwrite_offset_witness:
  "Lwrite [PZeros 3] (snd (Lclose False new_LogSink)) = (AssertionFailed, snd (Lclose False new_LogSink)) \<and>
   Ltell (snd (Lwrite [PZeros 3] new_LogSink)) = Ltell new_LogSink + 3"
proof -
  have w: "fst (Lwrite [PZeros 3] new_LogSink) = OK"
    by (simp add: Lwrite_def new_LogSink_def wf_Append_def wf_Flush_def ok_def Let_def)
  from Lwrite_offset[of "[PZeros 3]" False new_LogSink]
  have 1: "Lwrite [PZeros 3] (snd (Lclose False new_LogSink)) = (AssertionFailed, snd (Lclose False new_LogSink))"
    and 2: "\<forall>st s'. Lwrite [PZeros 3] new_LogSink = (st, s') \<longrightarrow>
      (st = OK \<longrightarrow> Ltell s' = Ltell new_LogSink + slice_size [PZeros 3])"
    by blast+
  from 2 w have "Ltell (snd (Lwrite [PZeros 3] new_LogSink)) = Ltell new_LogSink + slice_size [PZeros 3]"
    by (metis prod.collapse)
  then show ?thesis using 1 by (simp add: slice_size_def)
qed


section \<open>The table logger: what each operation leaves unchanged\<close>

lemma is_Some_the: "is_Some x \<Longrightarrow> x = Some (the x)"
  by (cases x) (simp_all add: is_Some_def)

lemma Lwrite_OK:
  "Lwrite d s = (OK, s') \<Longrightarrow> Ltell s' = Ltell s + slice_size d \<and> written s' = written s @ d"
  by (auto simp: Lwrite_def Ltell_def written_def ok_def Let_def wf_Flush_def wf_Append_def
      split: option.splits prod.splits if_splits)

lemma Lwrite_not_OK:
  "Lwrite d s = (st, s') \<Longrightarrow> st \<noteq> OK \<Longrightarrow> Ltell s' = Ltell s"
  by (auto simp: Lwrite_def Ltell_def ok_def Let_def wf_Flush_def wf_Append_def
      split: option.splits prod.splits if_splits)

lemma Lwrite_good:
  "sink_good s \<Longrightarrow> Lwrite d s = (st, s') \<Longrightarrow> st = OK \<and> sink_good s'"
  by (auto simp: Lwrite_def sink_good_def ok_def Let_def wf_Flush_def wf_Append_def
      split: option.splits prod.splits if_splits)

lemma Flush_frame:
  assumes "TableLogger_Flush s = Some s'"
  shows "tl_status s' = tl_status s" "tl_data_sink s' = tl_data_sink s"
    "tl_meta_sink s' = tl_meta_sink s" "tl_options s' = tl_options s"
    "tl_num_tables s' = tl_num_tables s" "tl_num_epochs s' = tl_num_epochs s"
    "tl_index_block s' = tl_index_block s" "tl_meta_block s' = tl_meta_block s"
    "tl_finished s' = tl_finished s" "tl_pending_meta_entry s' = tl_pending_meta_entry s"
    "\<not> tl_finished s"
  using assms
  by (auto simp: TableLogger_Flush_def Let_def bind_eq_Some_conv split: if_splits prod.splits)

lemma Commit_frame:
  assumes "TableLogger_Commit s = Some s'"
  shows "tl_meta_sink s' = tl_meta_sink s" "tl_options s' = tl_options s"
    "tl_num_tables s' = tl_num_tables s" "tl_num_epochs s' = tl_num_epochs s"
    "tl_meta_block s' = tl_meta_block s"
    "tl_finished s' = tl_finished s" "tl_pending_meta_entry s' = tl_pending_meta_entry s"
    "\<not> tl_finished s"
    "sink_good (tl_data_sink s) \<Longrightarrow> tl_ok s \<Longrightarrow> tl_ok s' \<and> sink_good (tl_data_sink s')"
  using assms
  by (auto simp: TableLogger_Commit_def Let_def bind_eq_Some_conv tl_ok_def ok_def dest: Lwrite_good split: if_splits prod.splits)


lemma EndTable_commit_frame:
  assumes "EndTable_commit s = Some s'"
  shows "tl_meta_sink s' = tl_meta_sink s" "tl_options s' = tl_options s"
    "tl_num_tables s' = tl_num_tables s" "tl_num_epochs s' = tl_num_epochs s"
    "tl_meta_block s' = tl_meta_block s"
    "tl_finished s' = tl_finished s" "tl_pending_meta_entry s' = tl_pending_meta_entry s"
    "\<not> tl_finished s"
    "sink_good (tl_data_sink s) \<Longrightarrow> tl_ok s \<Longrightarrow> tl_ok s' \<and> sink_good (tl_data_sink s')"
proof -
  from assms obtain s1 where f: "TableLogger_Flush s = Some s1"
    by (auto simp: EndTable_commit_def bind_eq_Some_conv)
  note F = Flush_frame[OF f]
  define s2 where "s2 = (if tl_pending_index_entry s1
                   then let succ = FindShortSuccessor (tl_last_key s1) in
                        s1\<lparr> tl_last_key := succ,
                            tl_uncommitted_indexes :=
                              tl_uncommitted_indexes s1 @ [(succ, tl_pending_index_handle s1)],
                            tl_pending_index_entry := False,
                            tl_num_uncommitted_index := Suc (tl_num_uncommitted_index s1) \<rparr>
                   else s1)"
  have s2: "tl_meta_sink s2 = tl_meta_sink s1" "tl_options s2 = tl_options s1"
    "tl_num_tables s2 = tl_num_tables s1" "tl_num_epochs s2 = tl_num_epochs s1"
    "tl_meta_block s2 = tl_meta_block s1" "tl_finished s2 = tl_finished s1"
    "tl_pending_meta_entry s2 = tl_pending_meta_entry s1" "tl_data_sink s2 = tl_data_sink s1"
    "tl_ok s2 = tl_ok s1"
    by (simp_all add: s2_def Let_def tl_ok_def)
  have cases: "(\<not> tl_ok s1 \<and> s' = s1) \<or> (tl_ok s1 \<and> TableLogger_Commit s2 = Some s')"
    using assms f by (auto simp: EndTable_commit_def s2_def Let_def split: if_splits)
  then show "tl_meta_sink s' = tl_meta_sink s" "tl_options s' = tl_options s"
    "tl_num_tables s' = tl_num_tables s" "tl_num_epochs s' = tl_num_epochs s"
    "tl_meta_block s' = tl_meta_block s"
    "tl_finished s' = tl_finished s" "tl_pending_meta_entry s' = tl_pending_meta_entry s"
    "\<not> tl_finished s"
    using F s2 Commit_frame(1-7)[of s2 s'] by auto
  show "tl_ok s' \<and> sink_good (tl_data_sink s')" if "sink_good (tl_data_sink s)" "tl_ok s"
    using cases F s2 that Commit_frame(9)[of s2 s'] by (auto simp: tl_ok_def)
qed

lemma blk_Finalize_size:
  "blk_Finalize pad b = Some (b', img) \<Longrightarrow> 0 < bi_final_size img"
  by (auto simp: blk_Finalize_def Let_def kBlockTrailerSize_def split: if_splits option.splits)


lemma EndTable_filter_frame:
  assumes "EndTable_filter X fb s4 = Some (fsz, s5)"
  shows "Ltell (tl_meta_sink s4) \<le> Ltell (tl_meta_sink s5)"
    "sink_good (tl_meta_sink s4) \<Longrightarrow> tl_ok s4 \<Longrightarrow> tl_ok s5 \<and> sink_good (tl_meta_sink s5)"
    "tl_options s5 = tl_options s4" "tl_num_tables s5 = tl_num_tables s4"
    "tl_num_epochs s5 = tl_num_epochs s4" "tl_finished s5 = tl_finished s4"
    "tl_data_sink s5 = tl_data_sink s4" "tl_meta_block s5 = tl_meta_block s4"
    "tl_pending_meta_entry s5 = tl_pending_meta_entry s4"
proof -
  have all: "Ltell (tl_meta_sink s4) \<le> Ltell (tl_meta_sink s5) \<and>
    (sink_good (tl_meta_sink s4) \<longrightarrow> tl_ok s4 \<longrightarrow> tl_ok s5 \<and> sink_good (tl_meta_sink s5)) \<and>
    tl_options s5 = tl_options s4 \<and> tl_num_tables s5 = tl_num_tables s4 \<and>
    tl_num_epochs s5 = tl_num_epochs s4 \<and> tl_finished s5 = tl_finished s4 \<and>
    tl_data_sink s5 = tl_data_sink s4 \<and> tl_meta_block s5 = tl_meta_block s4 \<and>
    tl_pending_meta_entry s5 = tl_pending_meta_entry s4"
  proof (cases fb)
    case None
    then show ?thesis using assms by (simp add: EndTable_filter_def)
  next
    case (Some f)
    with assms obtain fc where
      s5: "s5 = s4\<lparr>tl_status := fst (Lwrite [PFilter fc] (tl_meta_sink s4)),
                    tl_meta_sink := snd (Lwrite [PFilter fc] (tl_meta_sink s4))\<rparr>"
      by (auto simp: EndTable_filter_def bind_eq_Some_conv Let_def split_beta)
    obtain st2 sink2 where w': "Lwrite [PFilter fc] (tl_meta_sink s4) = (st2, sink2)"
      by (cases "Lwrite [PFilter fc] (tl_meta_sink s4)") auto
    have "Ltell (tl_meta_sink s4) \<le> Ltell sink2"
      using Lwrite_OK[of "[PFilter fc]" "tl_meta_sink s4" sink2] Lwrite_not_OK[OF w'] w'
      by (cases "st2 = OK") auto
    then show ?thesis using s5 w' Lwrite_good[OF _ w'] by (auto simp: tl_ok_def ok_def)
  qed
  then show "Ltell (tl_meta_sink s4) \<le> Ltell (tl_meta_sink s5)"
    "sink_good (tl_meta_sink s4) \<Longrightarrow> tl_ok s4 \<Longrightarrow> tl_ok s5 \<and> sink_good (tl_meta_sink s5)"
    "tl_options s5 = tl_options s4" "tl_num_tables s5 = tl_num_tables s4"
    "tl_num_epochs s5 = tl_num_epochs s4" "tl_finished s5 = tl_finished s4"
    "tl_data_sink s5 = tl_data_sink s4" "tl_meta_block s5 = tl_meta_block s4"
    "tl_pending_meta_entry s5 = tl_pending_meta_entry s4"
    by blast+
qed

lemma EndTable_write_frame:
  assumes "EndTable_write X fb s = Some s'"
  shows "tl_options s' = tl_options s" "tl_num_tables s' = tl_num_tables s"
    "tl_num_epochs s' = tl_num_epochs s" "tl_finished s' = tl_finished s"
    "tl_data_sink s' = tl_data_sink s" "tl_meta_block s' = tl_meta_block s"
    "Ltell (tl_meta_sink s) \<le> Ltell (tl_meta_sink s')"
    "tl_ok s' \<Longrightarrow> Ltell (tl_meta_sink s) < Ltell (tl_meta_sink s') \<and> tl_pending_meta_entry s'"
    "sink_good (tl_meta_sink s) \<Longrightarrow> tl_ok s' \<and> sink_good (tl_meta_sink s')"
proof -
  from assms obtain ib1 contents ib2 final_contents where
    a: "blk_Finish (tl_index_block s) = Some (ib1, contents)"
    and b: "blk_Finalize None ib1 = Some (ib2, final_contents)"
    by (auto simp: EndTable_write_def bind_eq_Some_conv Let_def split_beta)
  obtain st sink where w: "Lwrite [PBlock final_contents] (tl_meta_sink s) = (st, sink)"
    by (cases "Lwrite [PBlock final_contents] (tl_meta_sink s)") auto
  define s4 where "s4 = s\<lparr>tl_index_block := ib2, tl_status := st, tl_meta_sink := sink\<rparr>"
  have pos: "0 < bi_final_size final_contents" using b by (rule blk_Finalize_size)
  have w1: "st = OK \<Longrightarrow> Ltell sink = Ltell (tl_meta_sink s) + bi_final_size final_contents"
    using Lwrite_OK[of "[PBlock final_contents]" "tl_meta_sink s" sink] w by (simp add: slice_size_def)
  have w2: "st \<noteq> OK \<Longrightarrow> Ltell sink = Ltell (tl_meta_sink s)"
    using Lwrite_not_OK[OF w] by simp
  have w3: "sink_good (tl_meta_sink s) \<Longrightarrow> st = OK \<and> sink_good sink"
    using Lwrite_good[OF _ w] by simp
  have s4: "tl_meta_sink s4 = sink" "tl_ok s4 = (st = OK)" "tl_options s4 = tl_options s"
    "tl_num_tables s4 = tl_num_tables s" "tl_num_epochs s4 = tl_num_epochs s"
    "tl_finished s4 = tl_finished s" "tl_data_sink s4 = tl_data_sink s"
    "tl_meta_block s4 = tl_meta_block s"
    by (simp_all add: s4_def tl_ok_def ok_def)
  have rest: "(\<not> tl_ok s4 \<and> s' = s4) \<or>
    (tl_ok s4 \<and> (\<exists>fsz s5. EndTable_filter X fb s4 = Some (fsz, s5) \<and>
       ((\<not> tl_ok s5 \<and> s' = s5) \<or>
        (tl_ok s5 \<and> tl_meta_sink s' = tl_meta_sink s5 \<and> tl_status s' = tl_status s5 \<and>
         tl_pending_meta_entry s' \<and> tl_options s' = tl_options s5 \<and>
         tl_num_tables s' = tl_num_tables s5 \<and> tl_num_epochs s' = tl_num_epochs s5 \<and>
         tl_finished s' = tl_finished s5 \<and> tl_data_sink s' = tl_data_sink s5 \<and>
         tl_meta_block s' = tl_meta_block s5))))"
  proof (cases "tl_ok s4")
    case False
    then have "s' = s4" using assms
      by (simp add: EndTable_write_def a b w s4_def[symmetric] Let_def)
    then show ?thesis using False by simp
  next
    case True
    then obtain fsz s5 where f: "EndTable_filter X fb s4 = Some (fsz, s5)"
      and r: "(if \<not> tl_ok s5 then Some s5
         else if tl_pending_meta_entry s5 then None
         else Some (s5\<lparr> tl_index_block := blk_Reset (tl_index_block s5),
                        tl_pending_meta_handle := (tl_pending_meta_handle s5)
                          \<lparr> th_filter_offset := Ltell (tl_meta_sink s4), th_filter_size := fsz,
                            th_offset := Ltell (tl_meta_sink s), th_size := bi_size contents \<rparr>,
                        tl_pending_meta_entry := True \<rparr>)) = Some s'"
      using assms
      by (auto simp: EndTable_write_def a b w s4_def[symmetric] Let_def bind_eq_Some_conv)
    show ?thesis
    proof (cases "tl_ok s5")
      case False
      then show ?thesis using r f True by simp
    next
      case ok5: True
      then have "s' = s5\<lparr> tl_index_block := blk_Reset (tl_index_block s5),
                        tl_pending_meta_handle := (tl_pending_meta_handle s5)
                          \<lparr> th_filter_offset := Ltell (tl_meta_sink s4), th_filter_size := fsz,
                            th_offset := Ltell (tl_meta_sink s), th_size := bi_size contents \<rparr>,
                        tl_pending_meta_entry := True \<rparr>"
        using r by (simp split: if_splits)
      then show ?thesis using f True ok5 by simp
    qed
  qed
  note s5 = EndTable_filter_frame[of X fb s4]
  show "tl_options s' = tl_options s" "tl_num_tables s' = tl_num_tables s"
    "tl_num_epochs s' = tl_num_epochs s" "tl_finished s' = tl_finished s"
    "tl_data_sink s' = tl_data_sink s" "tl_meta_block s' = tl_meta_block s"
    using rest s5(3-8) s4 by fastforce+
  show "Ltell (tl_meta_sink s) \<le> Ltell (tl_meta_sink s')"
    using rest s5(1) s4 w1 w2 by (cases "st = OK") fastforce+
  show "Ltell (tl_meta_sink s) < Ltell (tl_meta_sink s') \<and> tl_pending_meta_entry s'" if "tl_ok s'"
    using rest s5(1) s4 w1 pos that by (fastforce simp: tl_ok_def)
  show "tl_ok s' \<and> sink_good (tl_meta_sink s')" if "sink_good (tl_meta_sink s)"
    using rest s5(2) s4 w3 that by (fastforce simp: tl_ok_def)
qed

lemma EndTable_meta_cases:
  assumes "EndTable_meta X s = Some s'"
  obtains (cap) "kMaxTablesPerEpoch X \<le> tl_num_tables s" "s' = s\<lparr>tl_status := AssertionFailed\<rparr>"
  | (counted) s7 where "tl_num_tables s < kMaxTablesPerEpoch X"
      "tl_status s7 = tl_status s" "tl_options s7 = tl_options s" "tl_num_epochs s7 = tl_num_epochs s"
      "tl_finished s7 = tl_finished s" "tl_data_sink s7 = tl_data_sink s"
      "tl_meta_sink s7 = tl_meta_sink s" "tl_num_tables s7 = tl_num_tables s"
      "\<not> tl_pending_meta_entry s7"
      "s' = (if tl_ok s7
             then s7\<lparr> tl_smallest_key := [], tl_largest_key := [], tl_last_key := [],
                      tl_num_tables := Suc (tl_num_tables s7) \<rparr>
             else s7)"
      "tl_data_block s7 = tl_data_block s" "tl_pending_index_entry s7 = tl_pending_index_entry s"
      "tl_index_block s7 = tl_index_block s"
proof (cases "kMaxTablesPerEpoch X \<le> tl_num_tables s")
  case True
  then have "s' = s\<lparr>tl_status := AssertionFailed\<rparr>"
    using assms by (simp add: EndTable_meta_def tl_ok_def ok_def)
  then show ?thesis using True cap by blast
next
  case False
  show ?thesis
  proof (cases "tl_pending_meta_entry s")
    case p: True
    from assms False p obtain mb where
      mb: "blk_Add (EpochKey (tl_num_epochs s) (tl_num_tables s))
             (VTableHandle ((tl_pending_meta_handle s)
                  \<lparr>th_smallest_key := tl_smallest_key s,
                   th_largest_key := FindShortSuccessor (tl_largest_key s)\<rparr>)) (tl_meta_block s) = Some mb"
      by (auto simp: EndTable_meta_def Let_def bind_eq_Some_conv)
    define s7 where "s7 = s\<lparr> tl_largest_key := FindShortSuccessor (tl_largest_key s),
                      tl_pending_meta_handle := (tl_pending_meta_handle s)
                  \<lparr>th_smallest_key := tl_smallest_key s,
                   th_largest_key := FindShortSuccessor (tl_largest_key s)\<rparr>,
                      tl_meta_block := mb,
                      tl_pending_meta_entry := False \<rparr>"
    have "s' = (if tl_ok s7
             then s7\<lparr> tl_smallest_key := [], tl_largest_key := [], tl_last_key := [],
                      tl_num_tables := Suc (tl_num_tables s7) \<rparr>
             else s7)"
      using assms False p unfolding s7_def
      by (auto simp add: EndTable_meta_def Let_def mb split: if_splits)
    moreover have "tl_status s7 = tl_status s" "tl_options s7 = tl_options s"
      "tl_num_epochs s7 = tl_num_epochs s"
      "tl_finished s7 = tl_finished s" "tl_data_sink s7 = tl_data_sink s"
      "tl_meta_sink s7 = tl_meta_sink s" "tl_num_tables s7 = tl_num_tables s"
      "\<not> tl_pending_meta_entry s7"
      "tl_data_block s7 = tl_data_block s" "tl_pending_index_entry s7 = tl_pending_index_entry s"
      "tl_index_block s7 = tl_index_block s"
      by (simp_all add: s7_def)
    ultimately show ?thesis using False counted[of s7] by simp
  next
    case np: False
    have "s' = (if tl_ok s
             then s\<lparr> tl_smallest_key := [], tl_largest_key := [], tl_last_key := [],
                      tl_num_tables := Suc (tl_num_tables s) \<rparr>
             else s)"
      using assms False np by (auto simp add: EndTable_meta_def Let_def split: if_splits)
    then show ?thesis using False np counted[of s] by simp
  qed
qed

lemma EndTable_meta_frame:
  assumes "EndTable_meta X s = Some s'"
  shows "tl_options s' = tl_options s" "tl_num_epochs s' = tl_num_epochs s"
    "tl_finished s' = tl_finished s" "tl_data_sink s' = tl_data_sink s"
    "tl_meta_sink s' = tl_meta_sink s"
    "tl_ok s \<Longrightarrow> kMaxTablesPerEpoch X \<le> tl_num_tables s \<Longrightarrow> tl_status s' = AssertionFailed"
    "tl_ok s \<Longrightarrow> tl_ok s' \<or> tl_status s' = AssertionFailed"
    "tl_ok s \<Longrightarrow> tl_ok s' \<Longrightarrow> tl_num_tables s' = Suc (tl_num_tables s) \<and> tl_num_tables s < kMaxTablesPerEpoch X"
    "tl_ok s \<Longrightarrow> tl_ok s' \<Longrightarrow> \<not> tl_pending_meta_entry s'"
proof -
  show "tl_options s' = tl_options s"
    using assms by (cases rule: EndTable_meta_cases) (simp_all split: if_splits)
  show "tl_num_epochs s' = tl_num_epochs s"
    using assms by (cases rule: EndTable_meta_cases) (simp_all split: if_splits)
  show "tl_finished s' = tl_finished s"
    using assms by (cases rule: EndTable_meta_cases) (simp_all split: if_splits)
  show "tl_data_sink s' = tl_data_sink s"
    using assms by (cases rule: EndTable_meta_cases) (simp_all split: if_splits)
  show "tl_meta_sink s' = tl_meta_sink s"
    using assms by (cases rule: EndTable_meta_cases) (simp_all split: if_splits)
  show "tl_status s' = AssertionFailed" if "tl_ok s" "kMaxTablesPerEpoch X \<le> tl_num_tables s"
    using assms that by (cases rule: EndTable_meta_cases) simp_all
  show "tl_ok s' \<or> tl_status s' = AssertionFailed" if "tl_ok s"
    using assms that by (cases rule: EndTable_meta_cases) (simp_all add: tl_ok_def split: if_splits)
  show "tl_num_tables s' = Suc (tl_num_tables s) \<and> tl_num_tables s < kMaxTablesPerEpoch X"
    if "tl_ok s" "tl_ok s'"
    using assms that by (cases rule: EndTable_meta_cases) (simp_all add: tl_ok_def ok_def split: if_splits)
  show "\<not> tl_pending_meta_entry s'" if "tl_ok s" "tl_ok s'"
    using assms that by (cases rule: EndTable_meta_cases) (simp_all add: tl_ok_def ok_def split: if_splits)
qed

lemma EndTable_spec:
  assumes e: "TableLogger_EndTable X fb s = Some s'"
  shows "tl_options s' = tl_options s" "tl_num_epochs s' = tl_num_epochs s"
    "\<not> tl_finished s" "\<not> tl_finished s'"
    "Ltell (tl_meta_sink s) \<le> Ltell (tl_meta_sink s')"
    "tl_ok s' \<Longrightarrow> tl_num_tables s' =
        (if Ltell (tl_meta_sink s') = Ltell (tl_meta_sink s) then tl_num_tables s else Suc (tl_num_tables s))"
    "tl_ok s' \<Longrightarrow> tl_num_tables s \<le> kMaxTablesPerEpoch X \<Longrightarrow> tl_num_tables s' \<le> kMaxTablesPerEpoch X"
    "Ltell (tl_meta_sink s') \<noteq> Ltell (tl_meta_sink s) \<Longrightarrow> kMaxTablesPerEpoch X \<le> tl_num_tables s
       \<Longrightarrow> \<not> tl_ok s'"
    "tl_ok s \<Longrightarrow> sink_good (tl_data_sink s) \<Longrightarrow> sink_good (tl_meta_sink s) \<Longrightarrow>
       sink_good (tl_data_sink s') \<and> sink_good (tl_meta_sink s') \<and>
       (tl_ok s' \<or> tl_status s' = AssertionFailed)"
    "tl_ok s' \<Longrightarrow> \<not> tl_pending_meta_entry s \<Longrightarrow> \<not> tl_pending_meta_entry s'"
proof -
  from e have nf: "\<not> tl_finished s" by (auto simp: TableLogger_EndTable_def split: if_splits)
  from e nf obtain s3 where c: "EndTable_commit s = Some s3"
    by (auto simp: TableLogger_EndTable_def bind_eq_Some_conv)
  note C = EndTable_commit_frame[OF c]
  have cases: "(s' = s3 \<and> (\<not> tl_ok s3 \<or> blk_empty (tl_index_block s3))) \<or>
    (tl_ok s3 \<and> (\<exists>s6. EndTable_write X fb s3 = Some s6 \<and>
        ((\<not> tl_ok s6 \<and> s' = s6) \<or> (tl_ok s6 \<and> EndTable_meta X s6 = Some s'))))"
    using e nf c by (auto simp: TableLogger_EndTable_def bind_eq_Some_conv split: if_splits)
  note W = EndTable_write_frame[of X fb s3]
  note M = EndTable_meta_frame[of X _ s']
  show "\<not> tl_finished s" by (rule nf)
  show "tl_options s' = tl_options s" "tl_num_epochs s' = tl_num_epochs s" "\<not> tl_finished s'"
    using cases C(2,4,6) W(1,3,4) M(1,2,3) nf by metis+
  show le: "Ltell (tl_meta_sink s) \<le> Ltell (tl_meta_sink s')"
    using cases C(1) W(7) M(5) by (metis order_refl)
  show "tl_num_tables s' =
        (if Ltell (tl_meta_sink s') = Ltell (tl_meta_sink s) then tl_num_tables s else Suc (tl_num_tables s))"
    if "tl_ok s'"
  proof -
    from cases that consider (a) "s' = s3" | (b) s6 where "tl_ok s3" "EndTable_write X fb s3 = Some s6"
      "tl_ok s6" "EndTable_meta X s6 = Some s'" by blast
    then show ?thesis
    proof cases
      case a then show ?thesis using C(1,3) by simp
    next
      case b
      have "Ltell (tl_meta_sink s) < Ltell (tl_meta_sink s')"
        using W(8)[OF b(2) b(3)] M(5)[OF b(4)] C(1) by simp
      moreover have "tl_num_tables s' = Suc (tl_num_tables s)"
        using M(8)[OF b(4) b(3) that] W(2)[OF b(2)] C(3) by simp
      ultimately show ?thesis by simp
    qed
  qed
  show "tl_num_tables s' \<le> kMaxTablesPerEpoch X" if "tl_ok s'" "tl_num_tables s \<le> kMaxTablesPerEpoch X"
  proof -
    from cases that consider (a) "s' = s3" | (b) s6 where "tl_ok s3" "EndTable_write X fb s3 = Some s6"
      "tl_ok s6" "EndTable_meta X s6 = Some s'" by blast
    then show ?thesis
    proof cases
      case a then show ?thesis using C(3) that by simp
    next
      case b
      show ?thesis using M(8)[OF b(4) b(3) that(1)] by simp
    qed
  qed
  show "\<not> tl_ok s'" if "Ltell (tl_meta_sink s') \<noteq> Ltell (tl_meta_sink s)"
    "kMaxTablesPerEpoch X \<le> tl_num_tables s"
  proof -
    from cases that(1) C(1) obtain s6 where b: "tl_ok s3" "EndTable_write X fb s3 = Some s6"
      "(\<not> tl_ok s6 \<and> s' = s6) \<or> (tl_ok s6 \<and> EndTable_meta X s6 = Some s')" by auto
    from b(3) show ?thesis
    proof
      assume "\<not> tl_ok s6 \<and> s' = s6" then show ?thesis by simp
    next
      assume m: "tl_ok s6 \<and> EndTable_meta X s6 = Some s'"
      have "tl_status s' = AssertionFailed"
        using M(6)[of s6] m W(2)[OF b(2)] C(3) that(2) by simp
      then show ?thesis by (simp add: tl_ok_def ok_def)
    qed
  qed
  show "sink_good (tl_data_sink s') \<and> sink_good (tl_meta_sink s') \<and>
       (tl_ok s' \<or> tl_status s' = AssertionFailed)"
    if "tl_ok s" "sink_good (tl_data_sink s)" "sink_good (tl_meta_sink s)"
  proof -
    have g3: "tl_ok s3" "sink_good (tl_data_sink s3)" "sink_good (tl_meta_sink s3)"
      using C(9)[OF that(2) that(1)] C(1) that(3) by simp_all
    from cases consider (a) "s' = s3" | (b) s6 where "EndTable_write X fb s3 = Some s6"
      "(\<not> tl_ok s6 \<and> s' = s6) \<or> (tl_ok s6 \<and> EndTable_meta X s6 = Some s')" by blast
    then show ?thesis
    proof cases
      case a then show ?thesis using g3 by simp
    next
      case b
      have g6: "tl_ok s6" "sink_good (tl_meta_sink s6)" "sink_good (tl_data_sink s6)"
        using W(9)[OF b(1) g3(3)] W(5)[OF b(1)] g3(2) by simp_all
      with b(2) have m: "EndTable_meta X s6 = Some s'" by simp
      show ?thesis using M(4,5,7)[OF m] g6 by auto
    qed
  qed
  show "\<not> tl_pending_meta_entry s'" if "tl_ok s'" "\<not> tl_pending_meta_entry s"
  proof -
    from cases that consider (a) "s' = s3" | (b) s6 where "tl_ok s3" "EndTable_write X fb s3 = Some s6"
      "tl_ok s6" "EndTable_meta X s6 = Some s'" by blast
    then show ?thesis
    proof cases
      case a then show ?thesis using C(7) that by simp
    next
      case b
      show ?thesis using M(9)[OF b(4) b(3) that(1)] by simp
    qed
  qed
qed

lemma EndEpoch_spec:
  assumes e: "TableLogger_EndEpoch X s = Some s'"
  shows "tl_options s' = tl_options s" "\<not> tl_finished s" "\<not> tl_finished s'"
    "Ltell (tl_meta_sink s) \<le> Ltell (tl_meta_sink s')"
    "tl_ok s' \<Longrightarrow> tl_num_epochs s \<le> kMaxEpoches X \<Longrightarrow> tl_num_epochs s' \<le> kMaxEpoches X"
    "kMaxEpoches X \<le> tl_num_epochs s \<Longrightarrow>
       tl_num_tables s \<noteq> 0 \<or> Ltell (tl_meta_sink s') \<noteq> Ltell (tl_meta_sink s) \<Longrightarrow> \<not> tl_ok s'"
    "tl_ok s \<Longrightarrow> sink_good (tl_data_sink s) \<Longrightarrow> sink_good (tl_meta_sink s) \<Longrightarrow>
       sink_good (tl_data_sink s') \<and> sink_good (tl_meta_sink s') \<and>
       (tl_ok s' \<or> tl_status s' = AssertionFailed)"
    "tl_ok s' \<Longrightarrow> \<not> tl_pending_meta_entry s \<Longrightarrow> \<not> tl_pending_meta_entry s'"
proof -
  from e have nf: "\<not> tl_finished s" by (auto simp: TableLogger_EndEpoch_def split: if_splits)
  from e nf obtain s1 where t: "TableLogger_EndTable X None s = Some s1"
    by (auto simp: TableLogger_EndEpoch_def bind_eq_Some_conv)
  note T = EndTable_spec[OF t]
  have cases: "(s' = s1 \<and> (\<not> tl_ok s1 \<or> tl_num_tables s1 = 0)) \<or>
     (tl_ok s1 \<and> tl_num_tables s1 \<noteq> 0 \<and> kMaxEpoches X \<le> tl_num_epochs s1 \<and> s' = s1\<lparr>tl_status := AssertionFailed\<rparr>) \<or>
     (tl_ok s1 \<and> tl_num_tables s1 \<noteq> 0 \<and> tl_num_epochs s1 < kMaxEpoches X \<and>
        s' = s1\<lparr>tl_num_tables := 0, tl_num_epochs := Suc (tl_num_epochs s1)\<rparr>)"
    using e nf t by (auto simp: TableLogger_EndEpoch_def split: if_splits)
  show "\<not> tl_finished s" by (rule nf)
  show "tl_options s' = tl_options s" "\<not> tl_finished s'"
    "Ltell (tl_meta_sink s) \<le> Ltell (tl_meta_sink s')"
    using cases T(1,4,5) by auto
  show "tl_num_epochs s' \<le> kMaxEpoches X" if "tl_ok s'" "tl_num_epochs s \<le> kMaxEpoches X"
    using cases T(2) that by auto
  show "\<not> tl_ok s'" if "kMaxEpoches X \<le> tl_num_epochs s"
    "tl_num_tables s \<noteq> 0 \<or> Ltell (tl_meta_sink s') \<noteq> Ltell (tl_meta_sink s)"
  proof (rule ccontr)
    assume "\<not> \<not> tl_ok s'"
    then have ok': "tl_ok s'" by simp
    from cases ok' have ok1: "tl_ok s1" by (auto simp: tl_ok_def ok_def)
    have sink: "tl_meta_sink s' = tl_meta_sink s1" using cases by auto
    have "tl_num_tables s1 \<noteq> 0" using T(6)[OF ok1] that(2) sink by (auto split: if_splits)
    then show False using cases ok' T(2) that(1) by (auto simp: tl_ok_def ok_def)
  qed
  show "sink_good (tl_data_sink s') \<and> sink_good (tl_meta_sink s') \<and>
       (tl_ok s' \<or> tl_status s' = AssertionFailed)"
    if "tl_ok s" "sink_good (tl_data_sink s)" "sink_good (tl_meta_sink s)"
    using cases T(9)[OF that] by (auto simp: tl_ok_def ok_def)
  show "\<not> tl_pending_meta_entry s'" if "tl_ok s'" "\<not> tl_pending_meta_entry s"
    using cases T(10) that by (auto simp: tl_ok_def ok_def)
qed

lemma pad_mod_aux: "r < b \<Longrightarrow> (q * b + r + (b - r)) mod b = (0::nat)"
proof -
  assume "r < b"
  then have "q * b + r + (b - r) = q * b + b" by simp
  then show ?thesis by simp
qed

lemma pad_mod: "0 < (b::nat) \<Longrightarrow> (a + (b - a mod b)) mod b = 0"
  using pad_mod_aux[of "a mod b" b "a div b"] by simp

lemma Finish_pad_spec:
  assumes "Finish_pad t s2 = Some s3" "tail_padding (tl_options s2)" "tl_ok s3" "tl_ok s2"
  shows "index_buffer (tl_options s2) \<noteq> 0"
    "(Ltell (tl_meta_sink s3) + t) mod index_buffer (tl_options s2) = 0"
    "\<exists>pad. written (tl_meta_sink s3) = written (tl_meta_sink s2) @ pad \<and>
        (pad = [] \<or> (\<exists>n>0. pad = [PZeros n]))"
    "tl_options s3 = tl_options s2" "tl_finished s3 = tl_finished s2"
proof -
  let ?ib = "index_buffer (tl_options s2)"
  let ?L = "Ltell (tl_meta_sink s2)"
  show nz: "?ib \<noteq> 0" using assms(1,2) by (auto simp: Finish_pad_def Let_def split: if_splits)
  show "(Ltell (tl_meta_sink s3) + t) mod ?ib = 0 "
  proof (cases "(?L + t) mod ?ib = 0")
    case True
    then have "s3 = s2" using assms(1,2) nz by (simp add: Finish_pad_def Let_def)
    then show ?thesis using True by simp
  next
    case False
    let ?n = "?ib - (?L + t) mod ?ib"
    obtain st sink where w: "Lwrite [PZeros ?n] (tl_meta_sink s2) = (st, sink)"
      by (cases "Lwrite [PZeros ?n] (tl_meta_sink s2)") auto
    have s3: "s3 = s2\<lparr>tl_status := st, tl_meta_sink := sink\<rparr>"
      using assms(1,2) nz False w by (simp add: Finish_pad_def Let_def)
    then have "st = OK" using assms(3) by (simp add: tl_ok_def ok_def)
    then have "Ltell sink = ?L + ?n" using Lwrite_OK[of "[PZeros ?n]" "tl_meta_sink s2" sink] w
      by (simp add: slice_size_def)
    then have "Ltell (tl_meta_sink s3) + t = (?L + t) + ?n" using s3 by (simp add: add_ac)
    moreover have "((?L + t) + ?n) mod ?ib = 0"
      using nz by (intro pad_mod) simp
    ultimately show ?thesis by (simp only:)
  qed
  show "\<exists>pad. written (tl_meta_sink s3) = written (tl_meta_sink s2) @ pad \<and>
        (pad = [] \<or> (\<exists>n>0. pad = [PZeros n]))"
  proof (cases "(?L + t) mod ?ib = 0")
    case True
    then have "s3 = s2" using assms(1,2) nz by (simp add: Finish_pad_def Let_def)
    then show ?thesis by simp
  next
    case False
    let ?n = "?ib - (?L + t) mod ?ib"
    obtain st sink where w: "Lwrite [PZeros ?n] (tl_meta_sink s2) = (st, sink)"
      by (cases "Lwrite [PZeros ?n] (tl_meta_sink s2)") auto
    have s3: "s3 = s2\<lparr>tl_status := st, tl_meta_sink := sink\<rparr>"
      using assms(1,2) nz False w by (simp add: Finish_pad_def Let_def)
    then have "st = OK" using assms(3) by (simp add: tl_ok_def ok_def)
    then have "written sink = written (tl_meta_sink s2) @ [PZeros ?n]"
      using Lwrite_OK[of "[PZeros ?n]" "tl_meta_sink s2" sink] w by simp
    moreover have "0 < ?n" using nz by simp
    ultimately show ?thesis using s3 by auto
  qed
  have both: "tl_options s3 = tl_options s2 \<and> tl_finished s3 = tl_finished s2"
  proof (cases "(?L + t) mod ?ib = 0")
    case True
    then have "s3 = s2" using assms(1,2) nz by (simp add: Finish_pad_def Let_def)
    then show ?thesis by simp
  next
    case False
    let ?n = "?ib - (?L + t) mod ?ib"
    obtain st sink where w: "Lwrite [PZeros ?n] (tl_meta_sink s2) = (st, sink)"
      by (cases "Lwrite [PZeros ?n] (tl_meta_sink s2)") auto
    have s3: "s3 = s2\<lparr>tl_status := st, tl_meta_sink := sink\<rparr>"
      using assms(1,2) nz False w by (simp add: Finish_pad_def Let_def)
    then show ?thesis by simp
  qed
  show "tl_options s3 = tl_options s2" using both by simp
  show "tl_finished s3 = tl_finished s2" using both by simp
qed


section \<open>The table logger: tail padding\<close>

text \<open>
  C4: when \<open>TableLogger::Finish\<close> returns OK and \<open>tail_padding\<close> is set, the logical
  offset of the index log after the footer is a multiple of \<open>index_buffer\<close> (which is
  then not 0), and what \<open>Finish\<close> has appended to the index log after \<open>EndEpoch\<close> is the
  meta block, then no padding or one run of zero bytes, then the footer.
\<close>

theorem Finish_tail_padding:
  assumes fin: "TableLogger_Finish X s = Some (OK, s')" and tp: "tail_padding (tl_options s)"
  shows "index_buffer (tl_options s) \<noteq> 0 \<and>
         Ltell (tl_meta_sink s') mod index_buffer (tl_options s) = 0 \<and>
         (\<exists>s0 meta_block pad footer.
            TableLogger_EndEpoch X s = Some s0 \<and>
            written (tl_meta_sink s') =
              written (tl_meta_sink s0) @ [PBlock meta_block] @ pad @ [PFooter footer (Footer_kEncodeLength X)] \<and>
            (pad = [] \<or> (\<exists>n>0. pad = [PZeros n])))"
proof -
  from fin have nf: "\<not> tl_finished s" by (auto simp: TableLogger_Finish_def split: if_splits)
  from fin nf obtain s0 where ee: "TableLogger_EndEpoch X s = Some s0"
    by (auto simp: TableLogger_Finish_def bind_eq_Some_conv)
  note E = EndEpoch_spec[OF ee]
  define s1 where "s1 = s0\<lparr>tl_finished := True\<rparr>"
  have s1: "tl_options s1 = tl_options s" "tl_meta_sink s1 = tl_meta_sink s0" "tl_ok s1 = tl_ok s0"
    "tl_status s1 = tl_status s0"
    using E(1) by (simp_all add: s1_def tl_ok_def)
  have ok1: "tl_ok s1"
  proof (rule ccontr)
    assume "\<not> tl_ok s1"
    then have "TableLogger_Finish X s = Some (tl_status s1, s1)"
      using nf ee by (simp add: TableLogger_Finish_def s1_def Let_def)
    with fin \<open>\<not> tl_ok s1\<close> show False by (auto simp: tl_ok_def ok_def)
  qed
  from fin nf ee ok1 obtain mb1 contents mb2 final_contents where
    a: "blk_Finish (tl_meta_block s1) = Some (mb1, contents)"
    and b: "blk_Finalize None mb1 = Some (mb2, final_contents)"
    by (auto simp: TableLogger_Finish_def s1_def[symmetric] bind_eq_Some_conv Let_def split_beta split: if_splits)
  obtain st sink where w: "Lwrite [PBlock final_contents] (tl_meta_sink s1) = (st, sink)"
    by (cases "Lwrite [PBlock final_contents] (tl_meta_sink s1)") auto
  define s2 where "s2 = s1\<lparr>tl_meta_block := mb2, tl_status := st, tl_meta_sink := sink\<rparr>"
  let ?footer = "\<lparr>ft_epoch_index_handle = \<lparr>bh_offset = Ltell (tl_meta_sink s1), bh_size = bi_size contents\<rparr>,
                   ft_num_epoches = tl_num_epochs s2\<rparr>"
  let ?tail = "[PFooter ?footer (Footer_kEncodeLength X)]"
  have np: "\<not> tl_pending_meta_entry s1"
    using fin nf ee ok1 by (auto simp: TableLogger_Finish_def s1_def[symmetric] Let_def split: if_splits)
  have unfold: "TableLogger_Finish X s =
      (if \<not> tl_ok s2 then Some (tl_status s2, s2)
       else Option.bind (Finish_pad (slice_size ?tail) s2) (\<lambda>s3.
            if tl_ok s3 then
              let (st, sink) = Lwrite ?tail (tl_meta_sink s3);
                  s4 = s3\<lparr>tl_status := st, tl_meta_sink := sink\<rparr>
              in Some (tl_status s4, s4)
            else Some (tl_status s3, s3)))"
    using nf ee ok1 np
    by (simp add: TableLogger_Finish_def s1_def[symmetric] a b w s2_def[symmetric] Let_def)
  have ok2: "tl_ok s2"
  proof (rule ccontr)
    assume n: "\<not> tl_ok s2"
    then have "TableLogger_Finish X s = Some (tl_status s2, s2)" by (simp add: unfold)
    with fin n show False by (auto simp: tl_ok_def ok_def)
  qed
  then have stOK: "st = OK" by (simp add: s2_def tl_ok_def ok_def)
  have s2: "tl_options s2 = tl_options s" "tl_meta_sink s2 = sink"
    using s1 by (simp_all add: s2_def)
  from fin ok2 obtain s3 where p: "Finish_pad (slice_size ?tail) s2 = Some s3"
    and r: "(if tl_ok s3 then
              let (st, sink) = Lwrite ?tail (tl_meta_sink s3);
                  s4 = s3\<lparr>tl_status := st, tl_meta_sink := sink\<rparr>
              in Some (tl_status s4, s4)
            else Some (tl_status s3, s3)) = Some (OK, s')"
    unfolding unfold by (auto simp: bind_eq_Some_conv)
  have ok3: "tl_ok s3"
  proof (rule ccontr)
    assume n: "\<not> tl_ok s3"
    with r show False by (auto simp: tl_ok_def ok_def)
  qed
  obtain st4 sink4 where w4: "Lwrite ?tail (tl_meta_sink s3) = (st4, sink4)"
    by (cases "Lwrite ?tail (tl_meta_sink s3)") auto
  from r ok3 w4 have s': "s' = s3\<lparr>tl_status := st4, tl_meta_sink := sink4\<rparr>" and st4: "st4 = OK"
    by (auto simp: Let_def)
  have tp2: "tail_padding (tl_options s2)" using tp s2 by simp
  note P = Finish_pad_spec[OF p tp2 ok3 ok2]
  note W4 = Lwrite_OK[OF w4[unfolded st4]]
  note W2 = Lwrite_OK[OF w[unfolded stOK]]
  have "index_buffer (tl_options s) \<noteq> 0" using P(1) s2 by simp
  moreover have "Ltell (tl_meta_sink s') mod index_buffer (tl_options s) = 0"
    using P(2) W4 s' s2 by simp
  moreover from P(3) obtain pad where
    pad: "written (tl_meta_sink s3) = written (tl_meta_sink s2) @ pad"
      "pad = [] \<or> (\<exists>n>0. pad = [PZeros n])" by blast
  have "written (tl_meta_sink s') =
      written (tl_meta_sink s0) @ [PBlock final_contents] @ pad @ ?tail"
    using W4 W2 pad(1) s' s2 s1 by simp
  ultimately show ?thesis using ee pad(2) by blast
qed

lemma one_table_Finish:
  "is_Some (TableLogger_Finish ex_Ext one_table) \<and> fst (the (TableLogger_Finish ex_Ext one_table)) = OK"
  by code_simp

lemma one_table_options: "tail_padding (tl_options one_table) \<and> index_buffer (tl_options one_table) = 100"
  by code_simp

theorem Finish_tail_padding_witness:
  "tail_padding (tl_options one_table) \<and>
   fst (the (TableLogger_Finish ex_Ext one_table)) = OK \<and>
   Ltell (tl_meta_sink (snd (the (TableLogger_Finish ex_Ext one_table)))) mod 100 = 0"
proof -
  have f: "TableLogger_Finish ex_Ext one_table =
      Some (OK, snd (the (TableLogger_Finish ex_Ext one_table)))"
    using one_table_Finish is_Some_the[of "TableLogger_Finish ex_Ext one_table"]
    by (metis prod.collapse)
  have tp: "tail_padding (tl_options one_table)" using one_table_options by simp
  from Finish_tail_padding[OF f tp] one_table_options one_table_Finish
  show ?thesis by simp
qed

section \<open>The table logger: sticky status\<close>

lemma Flush_not_ok: "\<not> tl_ok s \<Longrightarrow> TableLogger_Flush s = (if tl_finished s then None else Some s)"
  by (simp add: TableLogger_Flush_def)

lemma Commit_not_ok: "\<not> tl_ok s \<Longrightarrow> TableLogger_Commit s = (if tl_finished s then None else Some s)"
  by (simp add: TableLogger_Commit_def)

lemma Add_not_ok:
  "\<not> tl_ok s \<Longrightarrow> TableLogger_Add key v s = (if tl_finished s \<or> key = [] then None else Some s)"
  by (simp add: TableLogger_Add_def)

lemma EndTable_not_ok:
  "\<not> tl_ok s \<Longrightarrow> TableLogger_EndTable X fb s = (if tl_finished s then None else Some s)"
  by (simp add: TableLogger_EndTable_def EndTable_commit_def Flush_not_ok)

lemma EndEpoch_not_ok:
  "\<not> tl_ok s \<Longrightarrow> TableLogger_EndEpoch X s = (if tl_finished s then None else Some s)"
  by (simp add: TableLogger_EndEpoch_def EndTable_not_ok)

lemma Finish_not_ok:
  "\<not> tl_ok s \<Longrightarrow> TableLogger_Finish X s =
     (if tl_finished s then None else Some (tl_status s, s\<lparr>tl_finished := True\<rparr>))"
  by (simp add: TableLogger_Finish_def EndEpoch_not_ok tl_ok_def)

lemma apply_not_ok:
  "\<not> tl_ok s \<Longrightarrow> tl_apply X op s =
     (if tl_finished s \<or> (\<exists>v. op = OpAdd [] v) then None
      else if op = OpFinish then Some (s\<lparr>tl_finished := True\<rparr>) else Some s)"
  by (cases op)
     (auto simp: Flush_not_ok Commit_not_ok Add_not_ok EndTable_not_ok EndEpoch_not_ok Finish_not_ok)

lemma run_not_ok:
  "\<not> tl_ok s \<Longrightarrow> tl_run X ops s = Some s' \<Longrightarrow> s' = s \<or> s' = s\<lparr>tl_finished := True\<rparr>"
proof (induction ops arbitrary: s)
  case Nil then show ?case by simp
next
  case (Cons op ops)
  from Cons.prems obtain s1 where a: "tl_apply X op s = Some s1" and r: "tl_run X ops s1 = Some s'"
    by (auto split: option.splits)
  from a Cons.prems(1) have s1: "s1 = s \<or> s1 = s\<lparr>tl_finished := True\<rparr>"
    by (auto simp: apply_not_ok split: if_splits)
  then have "\<not> tl_ok s1" using Cons.prems(1) by (auto simp: tl_ok_def)
  from Cons.IH[OF this r] s1 show ?case by auto
qed

lemma run_not_ok_defined:
  "\<not> tl_ok s \<Longrightarrow> \<not> tl_finished s \<Longrightarrow> \<forall>v. OpAdd [] v \<notin> set ops \<Longrightarrow> OpFinish \<notin> set ops
     \<Longrightarrow> tl_run X ops s = Some s"
  by (induction ops) (auto simp: apply_not_ok)

lemma tl_run_append:
  "tl_run X (xs @ ys) s = (case tl_run X xs s of None \<Rightarrow> None | Some s' \<Rightarrow> tl_run X ys s')"
  by (induction xs arbitrary: s) (auto split: option.splits)


text \<open>
  C5: from a state whose status is not OK, every sequence of operations that returns
  leaves the status, both logs and the three block builders as they are. The operations
  do return: before \<open>Finish\<close>, every sequence of \<open>Add\<close> (of non-empty keys), \<open>Flush\<close>,
  \<open>Commit\<close>, \<open>EndTable\<close> and \<open>EndEpoch\<close> returns the state itself, and \<open>Finish\<close> then
  returns the status and sets only the \<open>finished_\<close> flag.
\<close>

theorem status_sticky:
  assumes "\<not> tl_ok s"
  shows "(tl_run X ops s = Some s' \<longrightarrow>
            tl_status s' = tl_status s \<and>
            tl_data_sink s' = tl_data_sink s \<and> tl_meta_sink s' = tl_meta_sink s \<and>
            tl_data_block s' = tl_data_block s \<and> tl_index_block s' = tl_index_block s \<and>
            tl_meta_block s' = tl_meta_block s) \<and>
         (\<not> tl_finished s \<longrightarrow> (\<forall>v. OpAdd [] v \<notin> set ops) \<longrightarrow> OpFinish \<notin> set ops \<longrightarrow>
            tl_run X ops s = Some s \<and>
            tl_run X (ops @ [OpFinish]) s = Some (s\<lparr>tl_finished := True\<rparr>) \<and>
            TableLogger_Finish X s = Some (tl_status s, s\<lparr>tl_finished := True\<rparr>))"
proof (intro conjI impI)
  assume "tl_run X ops s = Some s'"
  from run_not_ok[OF assms this]
  show "tl_status s' = tl_status s" "tl_data_sink s' = tl_data_sink s"
    "tl_meta_sink s' = tl_meta_sink s" "tl_data_block s' = tl_data_block s"
    "tl_index_block s' = tl_index_block s" "tl_meta_block s' = tl_meta_block s"
    by auto
next
  assume h: "\<not> tl_finished s" "\<forall>v. OpAdd [] v \<notin> set ops" "OpFinish \<notin> set ops"
  show r: "tl_run X ops s = Some s" by (rule run_not_ok_defined[OF assms h])
  show "tl_run X (ops @ [OpFinish]) s = Some (s\<lparr>tl_finished := True\<rparr>)"
    using r assms h(1) by (simp add: tl_run_append Finish_not_ok)
  show "TableLogger_Finish X s = Some (tl_status s, s\<lparr>tl_finished := True\<rparr>)"
    using assms h(1) by (simp add: Finish_not_ok)
qed


lemma failed_logger_status: "tl_status failed_logger = AssertionFailed \<and> \<not> tl_finished failed_logger"
  by code_simp

theorem status_sticky_witness:
  "\<not> tl_ok failed_logger \<and>
   tl_run ex_Ext [OpAdd [3] [4], OpFlush, OpCommit, OpEndTable None, OpEndEpoch] failed_logger =
     Some failed_logger \<and>
   TableLogger_Finish ex_Ext failed_logger =
     Some (AssertionFailed, failed_logger\<lparr>tl_finished := True\<rparr>)"
proof -
  have n: "\<not> tl_ok failed_logger" using failed_logger_status by (simp add: tl_ok_def ok_def)
  from status_sticky[OF n, of ex_Ext "[OpAdd [3] [4], OpFlush, OpCommit, OpEndTable None, OpEndEpoch]"]
    failed_logger_status n
  show ?thesis by simp
qed

section \<open>The table logger: caps on tables and epochs\<close>

lemma Prepare_not_ok:
  "\<not> tl_ok (lg_table_logger lg) \<Longrightarrow> Prepare X flush finish lg = Some (tl_status (lg_table_logger lg), lg)"
  by (subst Prepare.simps) simp

lemma Logger_Add_not_ok:
  "\<not> tl_ok (lg_table_logger lg) \<Longrightarrow>
     PlfsIoLogger_Add X key v lg = Some (tl_status (lg_table_logger lg), lg)"
  by (simp add: PlfsIoLogger_Add_def Prepare_not_ok tl_ok_def)


lemma VarintLength_pos: "0 < VarintLength v"
  by (subst VarintLength.simps) simp

lemma blk_Add_nbytes: "blk_Add key v b = Some b' \<Longrightarrow> blk_nbytes b < blk_nbytes b'"
  using VarintLength_pos[of "value_length v"]
  by (auto simp: blk_Add_def Let_def split: if_splits)

lemma Commit_indexes_nbytes:
  "Commit_indexes off xs acc ib = Some ib' \<Longrightarrow>
     blk_nbytes ib \<le> blk_nbytes ib' \<and> (xs \<noteq> [] \<longrightarrow> blk_nbytes ib < blk_nbytes ib')"
proof (induction xs arbitrary: acc ib)
  case Nil then show ?case by simp
next
  case (Cons x xs)
  obtain key handle where x: "x = (key, handle)" by (cases x)
  from Cons.prems x obtain ib1 where
    a: "blk_Add key (VBlockHandles (acc @ [handle\<lparr>bh_offset := off + bh_offset handle\<rparr>])) ib = Some ib1"
    and r: "Commit_indexes off xs (acc @ [handle\<lparr>bh_offset := off + bh_offset handle\<rparr>]) ib1 = Some ib'"
    by (auto simp: Let_def split: option.splits)
  from blk_Add_nbytes[OF a] Cons.IH[OF r] show ?case by simp
qed

lemma Flush_empty: "blk_empty (tl_data_block s) \<Longrightarrow> \<not> tl_finished s \<Longrightarrow> TableLogger_Flush s = Some s"
  by (simp add: TableLogger_Flush_def)

lemma Flush_pending:
  assumes "TableLogger_Flush s = Some s'" "tl_ok s" "\<not> blk_empty (tl_data_block s)"
  shows "tl_pending_index_entry s'" "blk_buffer_size (tl_data_block s') \<noteq> 0"
    "blk_empty (tl_data_block s')"
  using assms
  by (auto simp: TableLogger_Flush_def Let_def bind_eq_Some_conv blk_Finish_def blk_Finalize_def
      blk_Reset_def blk_SwitchBuffer_NULL_def blk_buffer_size_def blk_empty_def kBlockTrailerSize_def
      split: if_splits prod.splits)

lemma Flush_data_empty:
  assumes "TableLogger_Flush s = Some s'" "tl_ok s"
  shows "blk_empty (tl_data_block s')"
  using assms
  by (auto simp: TableLogger_Flush_def Let_def bind_eq_Some_conv blk_Finish_def blk_Finalize_def
      blk_Reset_def blk_SwitchBuffer_NULL_def blk_buffer_size_def blk_empty_def kBlockTrailerSize_def
      split: if_splits prod.splits)


lemma Add_spec:
  assumes a: "TableLogger_Add key v s = Some s'" and ok: "tl_ok s" and g: "sink_good (tl_data_sink s)"
  shows "tl_ok s'" "sink_good (tl_data_sink s')" "tl_meta_sink s' = tl_meta_sink s"
    "tl_num_tables s' = tl_num_tables s" "tl_num_epochs s' = tl_num_epochs s"
    "tl_options s' = tl_options s" "has_data s'"
proof -
  define s1 where "s1 = s\<lparr> tl_smallest_key := (if tl_smallest_key s = [] then key else tl_smallest_key s),
                     tl_largest_key := key \<rparr>"
  define s2 where "s2 = (if tl_pending_index_entry s1
                  then let sep = FindShortestSeparator (tl_last_key s1) key in
                       s1\<lparr> tl_last_key := sep,
                           tl_uncommitted_indexes :=
                             tl_uncommitted_indexes s1 @ [(sep, tl_pending_index_handle s1)],
                           tl_pending_index_entry := False,
                           tl_num_uncommitted_index := Suc (tl_num_uncommitted_index s1) \<rparr>
                  else s1)"
  have s2: "tl_ok s2" "tl_data_sink s2 = tl_data_sink s" "tl_meta_sink s2 = tl_meta_sink s"
    "tl_num_tables s2 = tl_num_tables s" "tl_num_epochs s2 = tl_num_epochs s"
    "tl_options s2 = tl_options s"
    using ok by (simp_all add: s2_def s1_def Let_def tl_ok_def)
  from a ok obtain s3 b threshold where
    c: "(if blk_buffer_size (tl_data_block s2) \<ge> block_buffer (tl_options s2)
         then TableLogger_Commit s2 else Some s2) = Some s3"
    and b: "blk_Add key (VBytes v) (tl_data_block s3) = Some b"
    and t: "flush_threshold (tl_options s3) = Some threshold"
    and f: "(if blk_CurrentSizeEstimate b + kBlockTrailerSize \<ge> threshold
             then TableLogger_Flush (s3\<lparr>tl_last_key := key, tl_data_block := b\<rparr>)
             else Some (s3\<lparr>tl_last_key := key, tl_data_block := b\<rparr>)) = Some s'"
    unfolding TableLogger_Add_def s2_def[symmetric, unfolded s1_def[symmetric]] s1_def[symmetric]
    by (auto simp: bind_eq_Some_conv Let_def s2_def[symmetric] s1_def[symmetric] split: if_splits)
  have s3: "tl_ok s3" "sink_good (tl_data_sink s3)" "tl_meta_sink s3 = tl_meta_sink s"
    "tl_num_tables s3 = tl_num_tables s" "tl_num_epochs s3 = tl_num_epochs s"
    "tl_options s3 = tl_options s"
    using c s2 g Commit_frame(1-4,9)[of s2 s3] by (auto split: if_splits)
  define s4 where "s4 = s3\<lparr>tl_last_key := key, tl_data_block := b\<rparr>"
  have s4: "tl_ok s4" "sink_good (tl_data_sink s4)" "tl_meta_sink s4 = tl_meta_sink s"
    "tl_num_tables s4 = tl_num_tables s" "tl_num_epochs s4 = tl_num_epochs s"
    "tl_options s4 = tl_options s" "\<not> blk_empty (tl_data_block s4)"
    using s3 blk_Add_nbytes[OF b] by (simp_all add: s4_def tl_ok_def blk_empty_def)
  from f have cases: "s' = s4 \<or> TableLogger_Flush s4 = Some s'"
    by (auto simp: s4_def split: if_splits)
  then have all: "tl_ok s' \<and> sink_good (tl_data_sink s') \<and> tl_meta_sink s' = tl_meta_sink s \<and>
    tl_num_tables s' = tl_num_tables s \<and> tl_num_epochs s' = tl_num_epochs s \<and>
    tl_options s' = tl_options s \<and> has_data s'"
  proof
    assume "s' = s4"
    then show ?thesis using s4 by (simp add: has_data_def)
  next
    assume fl: "TableLogger_Flush s4 = Some s'"
    note F = Flush_frame[OF fl]
    note P = Flush_pending[OF fl s4(1) s4(7)]
    show ?thesis using F(1-6) P s4 by (simp add: has_data_def tl_ok_def)
  qed
  then show "tl_ok s'" "sink_good (tl_data_sink s')" "tl_meta_sink s' = tl_meta_sink s"
    "tl_num_tables s' = tl_num_tables s" "tl_num_epochs s' = tl_num_epochs s"
    "tl_options s' = tl_options s" "has_data s'" by simp_all
qed

lemma EndTable_commit_index:
  assumes c: "EndTable_commit s = Some s3" and ok: "tl_ok s" and g: "sink_good (tl_data_sink s)"
    and d: "has_data s"
  shows "\<not> blk_empty (tl_index_block s3)"
proof -
  from c obtain s1 where f: "TableLogger_Flush s = Some s1"
    by (auto simp: EndTable_commit_def bind_eq_Some_conv)
  note F = Flush_frame[OF f]
  have p: "tl_pending_index_entry s1 \<and> blk_buffer_size (tl_data_block s1) \<noteq> 0"
  proof (cases "blk_empty (tl_data_block s)")
    case True
    then have "s1 = s" using f F(11) by (simp add: Flush_empty)
    then show ?thesis using d True by (simp add: has_data_def)
  next
    case False
    then show ?thesis using Flush_pending[OF f ok False] by simp
  qed
  have ok1: "tl_ok s1" using F(1) ok by (simp add: tl_ok_def)
  define s2 where "s2 = s1\<lparr> tl_last_key := FindShortSuccessor (tl_last_key s1),
                            tl_uncommitted_indexes :=
                              tl_uncommitted_indexes s1 @ [(FindShortSuccessor (tl_last_key s1), tl_pending_index_handle s1)],
                            tl_pending_index_entry := False,
                            tl_num_uncommitted_index := Suc (tl_num_uncommitted_index s1) \<rparr>"
  have cm: "TableLogger_Commit s2 = Some s3"
    using c f ok1 p by (simp add: EndTable_commit_def s2_def Let_def)
  have s2: "tl_ok s2" "blk_buffer_size (tl_data_block s2) \<noteq> 0" "tl_uncommitted_indexes s2 \<noteq> []"
    "sink_good (tl_data_sink s2)" "\<not> tl_finished s2"
    using ok1 p g F(2,9,11) by (simp_all add: s2_def tl_ok_def)
  obtain st sink where w: "Lwrite (blk_buffer_store (tl_data_block s2)) (tl_data_sink s2) = (st, sink)"
    by (cases "Lwrite (blk_buffer_store (tl_data_block s2)) (tl_data_sink s2)") auto
  from Lwrite_good[OF s2(4) w] have st: "st = OK" by simp
  from cm s2 w st obtain ib where
    i: "Commit_indexes (Ltell (tl_data_sink s2)) (tl_uncommitted_indexes s2) [] (tl_index_block s2) = Some ib"
    and r: "tl_index_block s3 = ib"
    by (auto simp: TableLogger_Commit_def Let_def ok_def tl_ok_def bind_eq_Some_conv split: if_splits)
  from Commit_indexes_nbytes[OF i] s2(3) r show ?thesis by (simp add: blk_empty_def)
qed


lemma Commit_idle:
  assumes "TableLogger_Commit s = Some s'" "tl_ok s'" "blk_empty (tl_data_block s)"
    "\<not> tl_pending_index_entry s"
  shows "blk_empty (tl_data_block s')" "blk_buffer_size (tl_data_block s') = 0"
    "\<not> tl_pending_index_entry s'"
  using assms
  by (auto simp: TableLogger_Commit_def Let_def bind_eq_Some_conv tl_ok_def ok_def blk_empty_def
      blk_Reset_def blk_SwitchBuffer_NULL_def blk_buffer_clear_def blk_buffer_size_def
      split: if_splits prod.splits)


lemma EndTable_commit_idle:
  assumes c: "EndTable_commit s = Some s3" and ok3: "tl_ok s3"
  shows "blk_empty (tl_data_block s3)" "blk_buffer_size (tl_data_block s3) = 0"
    "\<not> tl_pending_index_entry s3"
proof -
  from c obtain s1 where f: "TableLogger_Flush s = Some s1"
    by (auto simp: EndTable_commit_def bind_eq_Some_conv)
  note F = Flush_frame[OF f]
  have ok1: "tl_ok s1"
  proof (rule ccontr)
    assume "\<not> tl_ok s1"
    then have "s3 = s1" using c f by (simp add: EndTable_commit_def)
    then show False using ok3 \<open>\<not> tl_ok s1\<close> by simp
  qed
  then have ok: "tl_ok s" using F(1) by (simp add: tl_ok_def)
  have e1: "blk_empty (tl_data_block s1)" using Flush_data_empty[OF f ok] .
  define s2 where "s2 = (if tl_pending_index_entry s1
                   then let succ = FindShortSuccessor (tl_last_key s1) in
                        s1\<lparr> tl_last_key := succ,
                            tl_uncommitted_indexes :=
                              tl_uncommitted_indexes s1 @ [(succ, tl_pending_index_handle s1)],
                            tl_pending_index_entry := False,
                            tl_num_uncommitted_index := Suc (tl_num_uncommitted_index s1) \<rparr>
                   else s1)"
  have cm: "TableLogger_Commit s2 = Some s3"
    using c f ok1 by (simp add: EndTable_commit_def s2_def Let_def)
  have s2: "blk_empty (tl_data_block s2)" "\<not> tl_pending_index_entry s2"
    using e1 by (simp_all add: s2_def Let_def)
  from Commit_idle[OF cm ok3 s2]
  show "blk_empty (tl_data_block s3)" "blk_buffer_size (tl_data_block s3) = 0"
    "\<not> tl_pending_index_entry s3" by simp_all
qed


lemma EndTable_filter_data:
  "EndTable_filter X fb s = Some (n, s') \<Longrightarrow>
     tl_data_block s' = tl_data_block s \<and> tl_pending_index_entry s' = tl_pending_index_entry s \<and>
     tl_index_block s' = tl_index_block s"
  by (cases fb) (auto simp: EndTable_filter_def bind_eq_Some_conv split_beta Let_def)


lemma EndTable_write_data:
  assumes "EndTable_write X fb s = Some s'"
  shows "tl_data_block s' = tl_data_block s" "tl_pending_index_entry s' = tl_pending_index_entry s"
    "tl_ok s' \<Longrightarrow> blk_empty (tl_index_block s')"
proof -
  from assms obtain ib1 contents ib2 final_contents where
    a: "blk_Finish (tl_index_block s) = Some (ib1, contents)"
    and b: "blk_Finalize None ib1 = Some (ib2, final_contents)"
    by (auto simp: EndTable_write_def bind_eq_Some_conv Let_def split_beta)
  obtain st sink where w: "Lwrite [PBlock final_contents] (tl_meta_sink s) = (st, sink)"
    by (cases "Lwrite [PBlock final_contents] (tl_meta_sink s)") auto
  define s4 where "s4 = s\<lparr>tl_index_block := ib2, tl_status := st, tl_meta_sink := sink\<rparr>"
  have s4: "tl_data_block s4 = tl_data_block s" "tl_pending_index_entry s4 = tl_pending_index_entry s"
    by (simp_all add: s4_def)
  have rest: "(\<not> tl_ok s4 \<and> s' = s4) \<or>
    (tl_ok s4 \<and> (\<exists>fsz s5. EndTable_filter X fb s4 = Some (fsz, s5) \<and>
       ((\<not> tl_ok s5 \<and> s' = s5) \<or>
        (tl_ok s5 \<and> tl_data_block s' = tl_data_block s5 \<and>
         tl_pending_index_entry s' = tl_pending_index_entry s5 \<and>
         tl_index_block s' = blk_Reset (tl_index_block s5)))))"
  proof (cases "tl_ok s4")
    case False
    then have "s' = s4" using assms
      by (simp add: EndTable_write_def a b w s4_def[symmetric] Let_def)
    then show ?thesis using False by simp
  next
    case True
    then obtain fsz s5 where f: "EndTable_filter X fb s4 = Some (fsz, s5)"
      and r: "(if \<not> tl_ok s5 then Some s5
         else if tl_pending_meta_entry s5 then None
         else Some (s5\<lparr> tl_index_block := blk_Reset (tl_index_block s5),
                        tl_pending_meta_handle := (tl_pending_meta_handle s5)
                          \<lparr> th_filter_offset := Ltell (tl_meta_sink s4), th_filter_size := fsz,
                            th_offset := Ltell (tl_meta_sink s), th_size := bi_size contents \<rparr>,
                        tl_pending_meta_entry := True \<rparr>)) = Some s'"
      using assms
      by (auto simp: EndTable_write_def a b w s4_def[symmetric] Let_def bind_eq_Some_conv)
    show ?thesis
    proof (cases "tl_ok s5")
      case False
      then show ?thesis using r f True by simp
    next
      case ok5: True
      then have "s' = s5\<lparr> tl_index_block := blk_Reset (tl_index_block s5),
                        tl_pending_meta_handle := (tl_pending_meta_handle s5)
                          \<lparr> th_filter_offset := Ltell (tl_meta_sink s4), th_filter_size := fsz,
                            th_offset := Ltell (tl_meta_sink s), th_size := bi_size contents \<rparr>,
                        tl_pending_meta_entry := True \<rparr>"
        using r by (simp split: if_splits)
      then show ?thesis using f True ok5 by simp
    qed
  qed
  note D = EndTable_filter_data[of X fb s4]
  show "tl_data_block s' = tl_data_block s" "tl_pending_index_entry s' = tl_pending_index_entry s"
    using rest D s4 by fastforce+
  show "blk_empty (tl_index_block s')" if "tl_ok s'"
    using rest that by (fastforce simp: blk_empty_def blk_Reset_def)
qed


lemma EndTable_meta_data:
  assumes "EndTable_meta X s = Some s'"
  shows "tl_data_block s' = tl_data_block s" "tl_pending_index_entry s' = tl_pending_index_entry s"
    "tl_index_block s' = tl_index_block s"
    "tl_ok s \<Longrightarrow> tl_num_tables s < kMaxTablesPerEpoch X \<Longrightarrow> tl_ok s'"
proof -
  show "tl_data_block s' = tl_data_block s"
    using assms by (cases rule: EndTable_meta_cases) (simp_all split: if_splits)
  show "tl_pending_index_entry s' = tl_pending_index_entry s"
    using assms by (cases rule: EndTable_meta_cases) (simp_all split: if_splits)
  show "tl_index_block s' = tl_index_block s"
    using assms by (cases rule: EndTable_meta_cases) (simp_all split: if_splits)
  show "tl_ok s'" if "tl_ok s" "tl_num_tables s < kMaxTablesPerEpoch X"
    using assms that by (cases rule: EndTable_meta_cases) (simp_all add: tl_ok_def split: if_splits)
qed


lemma EndTable_idle_after:
  assumes e: "TableLogger_EndTable X fb s = Some s'" and ok': "tl_ok s'"
  shows "idle s'"
proof -
  from e have nf: "\<not> tl_finished s" by (auto simp: TableLogger_EndTable_def split: if_splits)
  from e nf obtain s3 where c: "EndTable_commit s = Some s3"
    by (auto simp: TableLogger_EndTable_def bind_eq_Some_conv)
  have cases: "(s' = s3 \<and> (\<not> tl_ok s3 \<or> blk_empty (tl_index_block s3))) \<or>
    (tl_ok s3 \<and> (\<exists>s6. EndTable_write X fb s3 = Some s6 \<and>
        ((\<not> tl_ok s6 \<and> s' = s6) \<or> (tl_ok s6 \<and> EndTable_meta X s6 = Some s'))))"
    using e nf c by (auto simp: TableLogger_EndTable_def bind_eq_Some_conv split: if_splits)
  from cases ok' consider (a) "s' = s3" "blk_empty (tl_index_block s3)"
    | (b) s6 where "tl_ok s3" "EndTable_write X fb s3 = Some s6" "tl_ok s6" "EndTable_meta X s6 = Some s'"
    by blast
  then show ?thesis
  proof cases
    case a
    then show ?thesis using EndTable_commit_idle[OF c] ok' by (simp add: idle_def)
  next
    case b
    note I = EndTable_commit_idle[OF c b(1)]
    note W = EndTable_write_data[OF b(2)]
    note M = EndTable_meta_data[OF b(4)]
    show ?thesis using I W(1,2) W(3)[OF b(3)] M(1-3) by (simp add: idle_def)
  qed
qed


lemma EndTable_written:
  assumes e: "TableLogger_EndTable X fb s = Some s'" and ok: "tl_ok s"
    and gd: "sink_good (tl_data_sink s)" and gm: "sink_good (tl_meta_sink s)" and d: "has_data s"
  shows "sink_good (tl_data_sink s')" "sink_good (tl_meta_sink s')"
    "tl_num_epochs s' = tl_num_epochs s" "tl_options s' = tl_options s"
    "tl_num_tables s < kMaxTablesPerEpoch X \<Longrightarrow>
       tl_ok s' \<and> tl_num_tables s' = Suc (tl_num_tables s)"
    "kMaxTablesPerEpoch X \<le> tl_num_tables s \<Longrightarrow> tl_status s' = AssertionFailed"
proof -
  note T = EndTable_spec[OF e]
  from e T(3) obtain s3 where c: "EndTable_commit s = Some s3"
    by (auto simp: TableLogger_EndTable_def bind_eq_Some_conv)
  note C = EndTable_commit_frame[OF c]
  have ok3: "tl_ok s3" using C(9)[OF gd ok] by simp
  have ne: "\<not> blk_empty (tl_index_block s3)" using EndTable_commit_index[OF c ok gd d] .
  from e T(3) c ok3 ne obtain s6 where w: "EndTable_write X fb s3 = Some s6"
    and m: "(\<not> tl_ok s6 \<and> s' = s6) \<or> EndTable_meta X s6 = Some s'"
    by (auto simp: TableLogger_EndTable_def bind_eq_Some_conv split: if_splits)
  note W = EndTable_write_frame[OF w]
  have ok6: "tl_ok s6" using W(9) C(1) gm by simp
  with m have mm: "EndTable_meta X s6 = Some s'" by simp
  note M = EndTable_meta_frame[OF mm]
  note D = EndTable_meta_data[OF mm]
  show "sink_good (tl_data_sink s')" "sink_good (tl_meta_sink s')"
    using T(9)[OF ok gd gm] by simp_all
  show "tl_num_epochs s' = tl_num_epochs s" "tl_options s' = tl_options s" using T(1,2) by simp_all
  show "tl_ok s' \<and> tl_num_tables s' = Suc (tl_num_tables s)" if "tl_num_tables s < kMaxTablesPerEpoch X"
  proof -
    have "tl_ok s'" using D(4)[OF ok6] W(2) C(3) that by simp
    moreover have "tl_num_tables s' = Suc (tl_num_tables s)"
      using M(8)[OF ok6 \<open>tl_ok s'\<close>] W(2) C(3) by simp
    ultimately show ?thesis by simp
  qed
  show "tl_status s' = AssertionFailed" if "kMaxTablesPerEpoch X \<le> tl_num_tables s"
    using M(6)[OF ok6] W(2) C(3) that by simp
qed


lemma EndTable_idle:
  "idle s \<Longrightarrow> \<not> tl_finished s \<Longrightarrow> TableLogger_EndTable X fb s = Some s"
  by (simp add: idle_def TableLogger_EndTable_def EndTable_commit_def Flush_empty
      TableLogger_Commit_def)


lemma EndEpoch_idle:
  "idle s \<Longrightarrow> \<not> tl_finished s \<Longrightarrow> tl_ok s \<Longrightarrow> tl_num_tables s \<noteq> 0 \<Longrightarrow>
     TableLogger_EndEpoch X s =
       Some (if kMaxEpoches X \<le> tl_num_epochs s then s\<lparr>tl_status := AssertionFailed\<rparr>
             else s\<lparr>tl_num_tables := 0, tl_num_epochs := Suc (tl_num_epochs s)\<rparr>)"
  by (simp add: TableLogger_EndEpoch_def EndTable_idle)


lemma Adds_run:
  assumes "tl_run X (map (\<lambda>(key, v). OpAdd key v) es) s = Some s'" "tl_ok s"
    "sink_good (tl_data_sink s)"
  shows "tl_ok s' \<and> sink_good (tl_data_sink s') \<and> tl_meta_sink s' = tl_meta_sink s \<and>
    tl_num_tables s' = tl_num_tables s \<and> tl_num_epochs s' = tl_num_epochs s \<and>
    (es \<noteq> [] \<longrightarrow> has_data s')"
  using assms
proof (induction es arbitrary: s)
  case Nil then show ?case by simp
next
  case (Cons e es)
  obtain key v where e: "e = (key, v)" by (cases e)
  from Cons.prems(1) e obtain s1 where a: "TableLogger_Add key v s = Some s1"
    and r: "tl_run X (map (\<lambda>(key, v). OpAdd key v) es) s1 = Some s'"
    by (auto split: option.splits)
  note A = Add_spec[OF a Cons.prems(2,3)]
  note I = Cons.IH[OF r A(1,2)]
  show ?case
  proof (cases "es = []")
    case True
    then have "s' = s1" using r by simp
    then show ?thesis using A by simp
  next
    case False
    then show ?thesis using I A by simp
  qed
qed

lemma table_run:
  assumes r: "tl_run X (table_ops t) s = Some s'" and ne: "fst t \<noteq> []" and ok: "tl_ok s"
    and gd: "sink_good (tl_data_sink s)" and gm: "sink_good (tl_meta_sink s)"
  shows "sink_good (tl_data_sink s')" "sink_good (tl_meta_sink s')"
    "tl_num_epochs s' = tl_num_epochs s"
    "tl_num_tables s < kMaxTablesPerEpoch X \<Longrightarrow>
       tl_ok s' \<and> tl_num_tables s' = Suc (tl_num_tables s) \<and> idle s'"
    "kMaxTablesPerEpoch X \<le> tl_num_tables s \<Longrightarrow> tl_status s' = AssertionFailed"
proof -
  from r obtain s1 where a: "tl_run X (map (\<lambda>(key, v). OpAdd key v) (fst t)) s = Some s1"
    and e: "TableLogger_EndTable X (snd t) s1 = Some s'"
    by (auto simp: table_ops_def tl_run_append split: option.splits)
  note A = Adds_run[OF a ok gd]
  have s1: "tl_ok s1" "sink_good (tl_data_sink s1)" "sink_good (tl_meta_sink s1)" "has_data s1"
    using A gm ne by simp_all
  note W = EndTable_written[OF e s1]
  show "sink_good (tl_data_sink s')" "sink_good (tl_meta_sink s')" using W(1,2) by simp_all
  show "tl_num_epochs s' = tl_num_epochs s" using W(3) A by simp
  show "tl_ok s' \<and> tl_num_tables s' = Suc (tl_num_tables s) \<and> idle s'"
    if "tl_num_tables s < kMaxTablesPerEpoch X"
    using W(5) A that EndTable_idle_after[OF e] by simp
  show "tl_status s' = AssertionFailed" if "kMaxTablesPerEpoch X \<le> tl_num_tables s"
    using W(6) A that by simp
qed

lemma run_not_ok_status:
  "\<not> tl_ok s \<Longrightarrow> tl_run X ops s = Some s' \<Longrightarrow> tl_status s' = tl_status s"
  using run_not_ok[of s X ops s'] by auto

lemma tables_run:
  assumes "tl_run X (concat (map table_ops ts)) s = Some s'" "\<forall>t\<in>set ts. fst t \<noteq> []" "tl_ok s"
    "sink_good (tl_data_sink s)" "sink_good (tl_meta_sink s)"
  shows "tl_status s' =
      (if ts \<noteq> [] \<and> kMaxTablesPerEpoch X < tl_num_tables s + length ts then AssertionFailed else OK) \<and>
    (tl_ok s' \<longrightarrow> tl_num_tables s' = tl_num_tables s + length ts \<and>
       tl_num_epochs s' = tl_num_epochs s \<and> sink_good (tl_data_sink s') \<and>
       sink_good (tl_meta_sink s') \<and> (ts \<noteq> [] \<longrightarrow> idle s'))"
  using assms
proof (induction ts arbitrary: s)
  case Nil
  then show ?case by (simp add: tl_ok_def ok_def)
next
  case (Cons t ts)
  from Cons.prems(1) obtain s1 where a: "tl_run X (table_ops t) s = Some s1"
    and r: "tl_run X (concat (map table_ops ts)) s1 = Some s'"
    by (auto simp: tl_run_append split: option.splits)
  from Cons.prems(2) have ne: "fst t \<noteq> []" and nes: "\<forall>t\<in>set ts. fst t \<noteq> []" by simp_all
  note T = table_run[OF a ne Cons.prems(3,4,5)]
  show ?case
  proof (cases "tl_num_tables s < kMaxTablesPerEpoch X")
    case True
    from T(4)[OF True] have s1: "tl_ok s1" "tl_num_tables s1 = Suc (tl_num_tables s)" "idle s1"
      by simp_all
    note I = Cons.IH[OF r nes s1(1) T(1,2)]
    show ?thesis
    proof (cases "ts = []")
      case e: True
      then have "s' = s1" using r by simp
      then show ?thesis using s1 T(1,2,3) True e by (simp add: tl_ok_def ok_def)
    next
      case False
      then show ?thesis using I s1 T(3) by simp
    qed
  next
    case False
    then have "tl_status s1 = AssertionFailed" using T(5) by simp
    then have n1: "\<not> tl_ok s1" by (simp add: tl_ok_def ok_def)
    from run_not_ok_status[OF n1 r] \<open>tl_status s1 = AssertionFailed\<close>
    have "tl_status s' = AssertionFailed" by simp
    then show ?thesis using False by (simp add: tl_ok_def ok_def)
  qed
qed

lemma epoch_run:
  assumes r: "tl_run X (epoch_ops ts) s = Some s'" and ne: "ts \<noteq> []"
    and len: "length ts \<le> kMaxTablesPerEpoch X" and nes: "\<forall>t\<in>set ts. fst t \<noteq> []"
    and ok: "tl_ok s" and gd: "sink_good (tl_data_sink s)" and gm: "sink_good (tl_meta_sink s)"
    and z: "tl_num_tables s = 0"
  shows "sink_good (tl_data_sink s')" "sink_good (tl_meta_sink s')"
    "tl_num_epochs s < kMaxEpoches X \<Longrightarrow>
       tl_ok s' \<and> tl_num_epochs s' = Suc (tl_num_epochs s) \<and> tl_num_tables s' = 0"
    "kMaxEpoches X \<le> tl_num_epochs s \<Longrightarrow> tl_status s' = AssertionFailed"
proof -
  from r obtain s1 where a: "tl_run X (concat (map table_ops ts)) s = Some s1"
    and e: "TableLogger_EndEpoch X s1 = Some s'"
    by (auto simp: epoch_ops_def tl_run_append split: option.splits)
  from tables_run[OF a nes ok gd gm] z len ne
  have s1: "tl_ok s1" "tl_num_tables s1 = length ts" "tl_num_epochs s1 = tl_num_epochs s"
    "sink_good (tl_data_sink s1)" "sink_good (tl_meta_sink s1)" "idle s1"
    by (simp_all add: tl_ok_def ok_def)
  have nf: "\<not> tl_finished s1" using EndEpoch_spec(2)[OF e] .
  have n0: "tl_num_tables s1 \<noteq> 0" using s1(2) ne by simp
  from e EndEpoch_idle[OF s1(6) nf s1(1) n0, of X]
  have s': "s' = (if kMaxEpoches X \<le> tl_num_epochs s1 then s1\<lparr>tl_status := AssertionFailed\<rparr>
             else s1\<lparr>tl_num_tables := 0, tl_num_epochs := Suc (tl_num_epochs s1)\<rparr>)" by simp
  show "sink_good (tl_data_sink s')" "sink_good (tl_meta_sink s')" using s' s1 by (simp_all split: if_splits)
  show "tl_ok s' \<and> tl_num_epochs s' = Suc (tl_num_epochs s) \<and> tl_num_tables s' = 0"
    if "tl_num_epochs s < kMaxEpoches X"
    using s' s1 that by (simp add: tl_ok_def)
  show "tl_status s' = AssertionFailed" if "kMaxEpoches X \<le> tl_num_epochs s"
    using s' s1 that by simp
qed

lemma epochs_run:
  assumes "tl_run X (concat (map epoch_ops es)) s = Some s'"
    "\<forall>ts\<in>set es. ts \<noteq> [] \<and> length ts \<le> kMaxTablesPerEpoch X \<and> (\<forall>t\<in>set ts. fst t \<noteq> [])"
    "tl_ok s" "sink_good (tl_data_sink s)" "sink_good (tl_meta_sink s)" "tl_num_tables s = 0"
  shows "tl_status s' =
      (if es \<noteq> [] \<and> kMaxEpoches X < tl_num_epochs s + length es then AssertionFailed else OK) \<and>
    (tl_ok s' \<longrightarrow> tl_num_epochs s' = tl_num_epochs s + length es \<and> tl_num_tables s' = 0)"
  using assms
proof (induction es arbitrary: s)
  case Nil
  then show ?case by (simp add: tl_ok_def ok_def)
next
  case (Cons ts es)
  from Cons.prems(1) obtain s1 where a: "tl_run X (epoch_ops ts) s = Some s1"
    and r: "tl_run X (concat (map epoch_ops es)) s1 = Some s'"
    by (auto simp: tl_run_append split: option.splits)
  from Cons.prems(2) have h: "ts \<noteq> []" "length ts \<le> kMaxTablesPerEpoch X" "\<forall>t\<in>set ts. fst t \<noteq> []"
    and hs: "\<forall>ts\<in>set es. ts \<noteq> [] \<and> length ts \<le> kMaxTablesPerEpoch X \<and> (\<forall>t\<in>set ts. fst t \<noteq> [])"
    by simp_all
  note E = epoch_run[OF a h Cons.prems(3,4,5,6)]
  show ?case
  proof (cases "tl_num_epochs s < kMaxEpoches X")
    case True
    from E(3)[OF True] have s1: "tl_ok s1" "tl_num_epochs s1 = Suc (tl_num_epochs s)"
      "tl_num_tables s1 = 0" by simp_all
    from Cons.IH[OF r hs s1(1) E(1,2) s1(3)] s1(2) True show ?thesis by auto
  next
    case False
    then have "tl_status s1 = AssertionFailed" using E(4) by simp
    then have n1: "\<not> tl_ok s1" by (simp add: tl_ok_def ok_def)
    from run_not_ok_status[OF n1 r] \<open>tl_status s1 = AssertionFailed\<close>
    have "tl_status s' = AssertionFailed" by simp
    then show ?thesis using False by (simp add: tl_ok_def ok_def)
  qed
qed


text \<open>
  C6: on logs whose writes succeed, from a state whose status is OK.
  Tables: after any number of compactions that each add at least one entry and end their
  table, the status is OK when the tables of the epoch, those counted before and one for
  each compaction, are at most \<open>kMaxTablesPerEpoch\<close>, and \<open>AssertionFailed\<close> when they
  are more; while the status is OK every table has been counted.
  Epochs: after any number of epochs, each of at least one and at most
  \<open>kMaxTablesPerEpoch\<close> such tables and ended by \<open>EndEpoch\<close>, the status is OK when
  the epochs, those counted before and the new ones, are at most \<open>kMaxEpoches\<close>, and
  \<open>AssertionFailed\<close> when they are more; while the status is OK every epoch has been
  counted.
  One call: an \<open>EndTable\<close> that leaves the status OK has counted a table exactly when
  it has written one (the index log has grown), and one that writes a table when the epoch
  already has \<open>kMaxTablesPerEpoch\<close> sets \<open>AssertionFailed\<close>; so does the \<open>EndEpoch\<close>
  of an epoch that is not empty when there are already \<open>kMaxEpoches\<close> epochs.
  Every \<open>Add\<close> of a logger whose table logger has that status returns it and changes
  nothing.
\<close>

theorem caps_exceeded:
  assumes "tl_ok s" and "sink_good (tl_data_sink s)" and "sink_good (tl_meta_sink s)"
  shows "(\<forall>ts s'. ts \<noteq> [] \<longrightarrow> (\<forall>t\<in>set ts. fst t \<noteq> []) \<longrightarrow>
            tl_run X (concat (map table_ops ts)) s = Some s' \<longrightarrow>
            tl_status s' = (if tl_num_tables s + length ts \<le> kMaxTablesPerEpoch X
                            then OK else AssertionFailed) \<and>
            (tl_ok s' \<longrightarrow> tl_num_tables s' = tl_num_tables s + length ts \<and>
                            tl_num_epochs s' = tl_num_epochs s)) \<and>
         (\<forall>es s'. es \<noteq> [] \<longrightarrow> tl_num_tables s = 0 \<longrightarrow>
            (\<forall>ts\<in>set es. ts \<noteq> [] \<and> length ts \<le> kMaxTablesPerEpoch X \<and> (\<forall>t\<in>set ts. fst t \<noteq> [])) \<longrightarrow>
            tl_run X (concat (map epoch_ops es)) s = Some s' \<longrightarrow>
            tl_status s' = (if tl_num_epochs s + length es \<le> kMaxEpoches X
                            then OK else AssertionFailed) \<and>
            (tl_ok s' \<longrightarrow> tl_num_epochs s' = tl_num_epochs s + length es \<and> tl_num_tables s' = 0)) \<and>
         (\<forall>fb s'. TableLogger_EndTable X fb s = Some s' \<longrightarrow>
            (tl_ok s' \<longrightarrow> tl_num_tables s' =
               (if Ltell (tl_meta_sink s') = Ltell (tl_meta_sink s) then tl_num_tables s
                else Suc (tl_num_tables s))) \<and>
            (tl_ok s' \<longrightarrow> tl_num_tables s \<le> kMaxTablesPerEpoch X \<longrightarrow>
               tl_num_tables s' \<le> kMaxTablesPerEpoch X) \<and>
            (kMaxTablesPerEpoch X \<le> tl_num_tables s \<longrightarrow>
             Ltell (tl_meta_sink s') \<noteq> Ltell (tl_meta_sink s) \<longrightarrow>
               tl_status s' = AssertionFailed)) \<and>
         (\<forall>s'. TableLogger_EndEpoch X s = Some s' \<longrightarrow>
            (tl_ok s' \<longrightarrow> tl_num_epochs s \<le> kMaxEpoches X \<longrightarrow> tl_num_epochs s' \<le> kMaxEpoches X) \<and>
            (kMaxEpoches X \<le> tl_num_epochs s \<longrightarrow>
             tl_num_tables s \<noteq> 0 \<or> Ltell (tl_meta_sink s') \<noteq> Ltell (tl_meta_sink s) \<longrightarrow>
               tl_status s' = AssertionFailed)) \<and>
         (\<forall>lg key v. tl_status (lg_table_logger lg) = AssertionFailed \<longrightarrow>
            PlfsIoLogger_Add X key v lg = Some (AssertionFailed, lg))"
proof (intro conjI impI allI)
  fix ts s'
  assume h: "ts \<noteq> []" "\<forall>t\<in>set ts. fst t \<noteq> []" "tl_run X (concat (map table_ops ts)) s = Some s'"
  note T = tables_run[OF h(3) h(2) assms]
  show "tl_status s' = (if tl_num_tables s + length ts \<le> kMaxTablesPerEpoch X
                            then OK else AssertionFailed)"
    using T h(1) by auto
  show "tl_num_tables s' = tl_num_tables s + length ts" if "tl_ok s'" using T that by simp
  show "tl_num_epochs s' = tl_num_epochs s" if "tl_ok s'" using T that by simp
next
  fix es s'
  assume h: "es \<noteq> []" "tl_num_tables s = 0"
    "\<forall>ts\<in>set es. ts \<noteq> [] \<and> length ts \<le> kMaxTablesPerEpoch X \<and> (\<forall>t\<in>set ts. fst t \<noteq> [])"
    "tl_run X (concat (map epoch_ops es)) s = Some s'"
  note E = epochs_run[OF h(4) h(3) assms h(2)]
  show "tl_status s' = (if tl_num_epochs s + length es \<le> kMaxEpoches X
                            then OK else AssertionFailed)"
    using E h(1) by auto
  show "tl_num_epochs s' = tl_num_epochs s + length es" if "tl_ok s'" using E that by simp
  show "tl_num_tables s' = 0" if "tl_ok s'" using E that by simp
next
  fix fb s'
  assume e: "TableLogger_EndTable X fb s = Some s'"
  note T = EndTable_spec[OF e]
  show "tl_num_tables s' =
               (if Ltell (tl_meta_sink s') = Ltell (tl_meta_sink s) then tl_num_tables s
                else Suc (tl_num_tables s))" if "tl_ok s'" using T(6) that by simp
  show "tl_num_tables s' \<le> kMaxTablesPerEpoch X"
    if "tl_ok s'" "tl_num_tables s \<le> kMaxTablesPerEpoch X" using T(7) that by simp
  show "tl_status s' = AssertionFailed"
    if "kMaxTablesPerEpoch X \<le> tl_num_tables s" "Ltell (tl_meta_sink s') \<noteq> Ltell (tl_meta_sink s)"
    using T(8)[OF that(2) that(1)] T(9)[OF assms] by simp
next
  fix s'
  assume e: "TableLogger_EndEpoch X s = Some s'"
  note E = EndEpoch_spec[OF e]
  show "tl_num_epochs s' \<le> kMaxEpoches X"
    if "tl_ok s'" "tl_num_epochs s \<le> kMaxEpoches X" using E(5) that by simp
  show "tl_status s' = AssertionFailed"
    if "kMaxEpoches X \<le> tl_num_epochs s"
      "tl_num_tables s \<noteq> 0 \<or> Ltell (tl_meta_sink s') \<noteq> Ltell (tl_meta_sink s)"
    using E(6)[OF that] E(7)[OF assms] by simp
next
  fix lg :: PlfsIoLogger and key v
  assume "tl_status (lg_table_logger lg) = AssertionFailed"
  then show "PlfsIoLogger_Add X key v lg = Some (AssertionFailed, lg)"
    using Logger_Add_not_ok[of lg X key v] by (simp add: tl_ok_def ok_def)
qed

lemma new_LogSink_good: "sink_good new_LogSink"
  by (simp add: sink_good_def new_LogSink_def)

lemma fresh_logger_state:
  "tl_ok fresh_logger \<and> tl_num_tables fresh_logger = 0 \<and> tl_num_epochs fresh_logger = 0 \<and>
   tl_data_sink fresh_logger = new_LogSink \<and> tl_meta_sink fresh_logger = new_LogSink"
  by (simp add: fresh_logger_def new_TableLogger_def tl_ok_def ok_def)

lemma five_tables_run:
  "is_Some (tl_run ex_Ext (concat (map table_ops (replicate 5 small_table))) fresh_logger)"
  by code_simp

lemma five_epochs_run:
  "is_Some (tl_run ex_Ext (concat (map epoch_ops (replicate 5 [small_table]))) fresh_logger)"
  by code_simp

theorem caps_exceeded_witness:
  "tl_status (the (tl_run ex_Ext (concat (map table_ops (replicate 5 small_table))) fresh_logger))
     = AssertionFailed \<and>
   tl_status (the (tl_run ex_Ext (concat (map epoch_ops (replicate 5 [small_table]))) fresh_logger))
     = AssertionFailed \<and>
   PlfsIoLogger_Add ex_Ext [5] [6]
     ((new_PlfsIoLogger ex_options new_LogSink new_LogSink)
        \<lparr>lg_table_logger :=
           the (tl_run ex_Ext (concat (map table_ops (replicate 5 small_table))) fresh_logger)\<rparr>) =
     Some (AssertionFailed, (new_PlfsIoLogger ex_options new_LogSink new_LogSink)
        \<lparr>lg_table_logger :=
           the (tl_run ex_Ext (concat (map table_ops (replicate 5 small_table))) fresh_logger)\<rparr>)"
proof -
  let ?ts = "replicate 5 small_table"
  let ?es = "replicate 5 [small_table]"
  let ?s1 = "the (tl_run ex_Ext (concat (map table_ops ?ts)) fresh_logger)"
  let ?s2 = "the (tl_run ex_Ext (concat (map epoch_ops ?es)) fresh_logger)"
  let ?lg = "(new_PlfsIoLogger ex_options new_LogSink new_LogSink)\<lparr>lg_table_logger := ?s1\<rparr>"
  have ok: "tl_ok fresh_logger" and gd: "sink_good (tl_data_sink fresh_logger)"
    and gm: "sink_good (tl_meta_sink fresh_logger)"
    using fresh_logger_state new_LogSink_good by simp_all
  note c = caps_exceeded[OF ok gd gm, of ex_Ext]
  have r1: "tl_run ex_Ext (concat (map table_ops ?ts)) fresh_logger = Some ?s1"
    using five_tables_run is_Some_the by blast
  have r2: "tl_run ex_Ext (concat (map epoch_ops ?es)) fresh_logger = Some ?s2"
    using five_epochs_run is_Some_the by blast
  have t: "?ts \<noteq> [] \<and> (\<forall>t\<in>set ?ts. fst t \<noteq> [])" by (simp add: small_table_def)
  have e: "?es \<noteq> [] \<and> tl_num_tables fresh_logger = 0 \<and>
    (\<forall>ts\<in>set ?es. ts \<noteq> [] \<and> length ts \<le> kMaxTablesPerEpoch ex_Ext \<and> (\<forall>t\<in>set ts. fst t \<noteq> []))"
    using fresh_logger_state by (simp add: small_table_def ex_Ext_def)
  from c[THEN conjunct1, rule_format, of ?ts ?s1] t r1 fresh_logger_state
  have a1: "tl_status ?s1 = AssertionFailed" by (simp add: ex_Ext_def)
  from c[THEN conjunct2, THEN conjunct1, rule_format, of ?es ?s2] e r2 fresh_logger_state
  have a2: "tl_status ?s2 = AssertionFailed" by (simp add: ex_Ext_def)
  from c[THEN conjunct2, THEN conjunct2, THEN conjunct2, THEN conjunct2, rule_format, of ?lg "[5]" "[6]"] a1
  have a3: "PlfsIoLogger_Add ex_Ext [5] [6] ?lg = Some (AssertionFailed, ?lg)" by simp
  from a1 a2 a3 show ?thesis by simp
qed

section \<open>The reader: a filter that cannot be read\<close>

lemma ReadBlock_Inl: "ReadBlock file options off n = Inl status \<Longrightarrow> status \<noteq> OK"
  by (auto simp: ReadBlock_def Let_def ok_def split: prod.splits if_splits)

text \<open>
  C9: when the read of the filter block of a table fails, with whatever status,
  \<open>KeyMayMatch\<close> is true for every key, and \<open>Get\<close> on the table does what it does on
  the same table without a filter: it reads the index block and scans the data blocks,
  and the status of the failed read (which is not OK) is not returned.
\<close>

theorem filter_read_failure:
  assumes "ReadBlock (rd_index_src R) (rd_options R) (th_filter_offset h) (th_filter_size h) = Inl status"
  shows "status \<noteq> OK \<and>
         KeyMayMatch X R key \<lparr>bh_offset = th_filter_offset h, bh_size = th_filter_size h\<rparr> \<and>
         Get_table X R key h state = Get_table X R key (h\<lparr>th_filter_size := 0\<rparr>) state"
proof -
  have k: "KeyMayMatch X R key \<lparr>bh_offset = th_filter_offset h, bh_size = th_filter_size h\<rparr>"
    using assms by (simp add: KeyMayMatch_def)
  then have "Get_table X R key h state = Get_table X R key (h\<lparr>th_filter_size := 0\<rparr>) state"
    by (simp add: Get_table_def Let_def)
  with k ReadBlock_Inl[OF assms] show ?thesis by simp
qed

lemma broken_filter_read:
  "ReadBlock (rd_index_src broken_filter_reader) (rd_options broken_filter_reader)
     (th_filter_offset broken_filter_table) (th_filter_size broken_filter_table) = Inl IOError"
  by (simp add: ReadBlock_def broken_filter_reader_def broken_filter_table_def ok_def)

lemma broken_filter_scan:
  "Get_table ex_Ext broken_filter_reader [1] (broken_filter_table\<lparr>th_filter_size := 0\<rparr>)
     \<lparr>sv_dst = [], sv_found = False\<rparr> = (OK, \<lparr>sv_dst = [9], sv_found = True\<rparr>)"
  by code_simp

theorem filter_read_failure_witness:
  "KeyMayMatch ex_Ext broken_filter_reader [1]
     \<lparr>bh_offset = th_filter_offset broken_filter_table, bh_size = th_filter_size broken_filter_table\<rparr> \<and>
   Get_table ex_Ext broken_filter_reader [1] broken_filter_table \<lparr>sv_dst = [], sv_found = False\<rparr> =
     (OK, \<lparr>sv_dst = [9], sv_found = True\<rparr>)"
  using filter_read_failure[OF broken_filter_read, of ex_Ext "[1]" "\<lparr>sv_dst = [], sv_found = False\<rparr>"]
    broken_filter_scan by simp

section \<open>The logger: calls after Finish\<close>































section \<open>The directory: values written and read back\<close>

text \<open>
  C1 does not hold of the code. \<open>Add("a", v1)\<close>, \<open>Add("b", v2)\<close> and \<open>Finish\<close>, with
  values of 32 bytes and blocks of 32 bytes, all return OK and write one table of two data
  blocks; the reader then finds \<open>v1\<close> under \<open>"a"\<close> and nothing under \<open>"b"\<close>, with status
  OK. The index block that \<open>Commit\<close> has built holds, for the second data block, the
  handles of both blocks (\<open>handle_encoding\<close> is never cleared), and the reader decodes
  the first.
\<close>

theorem second_block_unreachable:
  "write_then_Gets ex_Ext two_block_options two_block_calls [98] = Some ([OK, OK, OK], Inr (OK, [])) \<and>
   write_then_Gets ex_Ext two_block_options two_block_calls [97] =
     Some ([OK, OK, OK], Inr (OK, replicate 32 1)) \<and>
   map_option (\<lambda>(statuses, lg). piece_at (written (tl_meta_sink (lg_table_logger lg))) 0)
     (run_calls ex_Ext two_block_calls (new_PlfsIoLogger two_block_options new_LogSink new_LogSink)) =
     Some (Some (PBlock \<lparr>bi_entries =
        [([97], VBlockHandles [\<lparr>bh_offset = 0, bh_size = 44\<rparr>]),
         ([99], VBlockHandles [\<lparr>bh_offset = 0, bh_size = 44\<rparr>, \<lparr>bh_offset = 49, bh_size = 44\<rparr>])],
        bi_size = 26, bi_final_size = 31\<rparr>))"
  by code_simp

end
